theory Spec2Isabelle
  imports Main "HOL-Library.Word"
begin

unbundle bit_operations_syntax

section \<open>Constants, enumerations and bit primitives\<close>

text \<open>
  The engine is a single C++ file, \<^verbatim>\<open>src/main.cpp\<close>. Its integers are \<^verbatim>\<open>int\<close>
  (modelled as \<^typ>\<open>int\<close>: no value of the engine comes near the 32-bit limits) and
  \<^verbatim>\<open>U64\<close> (modelled as \<^typ>\<open>64 word\<close>). The two anonymous enumerations are plain
  integer constants in the source and stay so here; they index the arrays.
\<close>

type_synonym U64 = "64 word"

abbreviation (input) PAWN :: int where "PAWN \<equiv> 0"
abbreviation (input) KNIGHT :: int where "KNIGHT \<equiv> 1"
abbreviation (input) BISHOP :: int where "BISHOP \<equiv> 2"
abbreviation (input) ROOK :: int where "ROOK \<equiv> 3"
abbreviation (input) QUEEN :: int where "QUEEN \<equiv> 4"
abbreviation (input) KING :: int where "KING \<equiv> 5"

abbreviation (input) WHITE :: int where "WHITE \<equiv> 0"
abbreviation (input) BLACK :: int where "BLACK \<equiv> 1"

definition INF_score :: int where "INF_score = 999999"
definition MATE :: int where "MATE = 100000"
definition MAX_QUIESCENCE_DEPTH :: int where "MAX_QUIESCENCE_DEPTH = 6"
definition MAX_PLY :: int where "MAX_PLY = 128"

text \<open>\<^verbatim>\<open>1ULL << sq\<close>. Every shift of the source is by a square 0..63.\<close>

definition bit_at :: "int \<Rightarrow> U64" where
  "bit_at sq = push_bit (nat sq) 1"

text \<open>
  \<^verbatim>\<open>__builtin_ctzll\<close> (index of the lowest set bit; the source only calls it on a
  non-zero word) and \<^verbatim>\<open>__builtin_popcountll\<close>.
\<close>

definition ctzll :: "U64 \<Rightarrow> int" where
  "ctzll w = int (length (takeWhile (\<lambda>i. \<not> bit w i) [0..<64]))"

definition popcountll :: "U64 \<Rightarrow> int" where
  "popcountll w = int (length (filter (bit w) [0..<64]))"

text \<open>
  The loop \<^verbatim>\<open>while (bb) { sq = __builtin_ctzll(bb); ...; bb &= bb - 1; }\<close>
  visits the squares of a bitboard from the lowest up: \<open>squares_of\<close> is the list of the
  values \<open>sq\<close> takes, in order.
\<close>

function squares_of :: "U64 \<Rightarrow> int list" where
  "squares_of w = (if w = 0 then [] else ctzll w # squares_of (w AND (w - 1)))"
  by pat_completeness auto
termination
proof (relation "measure unat")
  show "wf (measure unat)" by simp
next
  fix w :: U64 assume "w \<noteq> 0"
  have "w AND (w - 1) \<le> w - 1" by (rule word_and_le1)
  then have "unat (w AND (w - 1)) \<le> unat (w - 1)" by (simp add: word_le_nat_alt)
  also have "\<dots> < unat w" using \<open>w \<noteq> 0\<close> by (rule measure_unat)
  finally show "(w AND (w - 1), w) \<in> measure unat" by simp
qed

declare squares_of.simps [simp del]

section \<open>The board (struct Board, main.cpp 125-215)\<close>

record Board =
  pieces :: "int \<Rightarrow> int \<Rightarrow> U64"
  occupied :: "int \<Rightarrow> U64"
  all :: U64
  side :: int
  ep :: int
  castle :: int
  hash :: U64

text \<open>\<^verbatim>\<open>Board::update\<close>: rebuild the occupancy words from the piece words.\<close>

definition update :: "Board \<Rightarrow> Board" where
  "update b =
    (let occ = fold (\<lambda>p oc. oc(WHITE := oc WHITE OR pieces b WHITE p,
                                    BLACK := oc BLACK OR pieces b BLACK p))
                 [PAWN..KING] ((occupied b)(WHITE := 0, BLACK := 0))
     in b\<lparr>occupied := occ, all := occ WHITE OR occ BLACK\<rparr>)"

subsection \<open>Static evaluation (Board::evaluate, main.cpp 164-214)\<close>

definition piece_values :: "int list" where
  "piece_values = [100, 320, 330, 500, 900, 0]"

text \<open>Material: the double loop over colour and piece kind.\<close>

definition eval_material :: "Board \<Rightarrow> int \<Rightarrow> int" where
  "eval_material b eval0 =
    fold (\<lambda>c eval.
      fold (\<lambda>p eval.
        let count = popcountll (pieces b c p)
        in eval + (if c = WHITE then count else - count) * piece_values ! nat p)
        [0..5] eval)
      [0..1] eval0"

text \<open>King placement: the loop over the two colours, skipping an absent king.\<close>

definition eval_king :: "Board \<Rightarrow> int \<Rightarrow> int" where
  "eval_king b eval0 =
    fold (\<lambda>c eval.
      if pieces b c KING = 0 then eval
      else
        let king_sq = ctzll (pieces b c KING)
        in if c = WHITE then
             (if king_sq = 6 \<or> king_sq = 2 then eval + 40
              else if king_sq = 4 then eval - 20 else eval)
           else
             (if king_sq = 62 \<or> king_sq = 58 then eval - 40
              else if king_sq = 60 then eval + 20 else eval))
      [0..1] eval0"

definition center :: U64 where
  "center = 0x0000001818000000"

definition eval_center :: "Board \<Rightarrow> int \<Rightarrow> int" where
  "eval_center b eval =
     eval + (popcountll (pieces b WHITE PAWN AND center) -
             popcountll (pieces b BLACK PAWN AND center)) * 20"

text \<open>The two pawn loops (the "passed pawn" rank bonus).\<close>

definition eval_wpawns :: "Board \<Rightarrow> int \<Rightarrow> int" where
  "eval_wpawns b eval0 =
    fold (\<lambda>sq eval. let rank = sq div 8 in
             if rank \<ge> 4 then eval + (rank - 3) * 15 else eval)
      (squares_of (pieces b WHITE PAWN)) eval0"

definition eval_bpawns :: "Board \<Rightarrow> int \<Rightarrow> int" where
  "eval_bpawns b eval0 =
    fold (\<lambda>sq eval. let rank = sq div 8 in
             if rank \<le> 3 then eval - (4 - rank) * 15 else eval)
      (squares_of (pieces b BLACK PAWN)) eval0"

definition evaluate :: "Board \<Rightarrow> int" where
  "evaluate b =
    (let eval = eval_bpawns b (eval_wpawns b (eval_center b (eval_king b (eval_material b 0))))
     in if side b = WHITE then eval else - eval)"

section \<open>Moves (struct Move, main.cpp 217-227)\<close>

record Move =
  from_sq :: int
  to_sq :: int
  score :: int
  piece :: int
  captured :: int
  promo :: int

text \<open>
  The constructor \<^verbatim>\<open>Move(f = 0, t = 0, p = 0, c = -1, pr = 0)\<close>; the score starts at 0.
  \<open>Move3\<close> is the call with the last two arguments defaulted.
\<close>

definition mk_Move :: "int \<Rightarrow> int \<Rightarrow> int \<Rightarrow> int \<Rightarrow> int \<Rightarrow> Move" where
  "mk_Move f t p c pr = \<lparr>from_sq = f, to_sq = t, score = 0, piece = p, captured = c, promo = pr\<rparr>"

abbreviation (input) Move3 :: "int \<Rightarrow> int \<Rightarrow> int \<Rightarrow> Move" where
  "Move3 f t p \<equiv> mk_Move f t p (- 1) 0"

text \<open>\<^verbatim>\<open>Move::operator==\<close>\<close>

definition move_eq :: "Move \<Rightarrow> Move \<Rightarrow> bool" where
  "move_eq m other \<longleftrightarrow>
     from_sq m = from_sq other \<and> to_sq m = to_sq other \<and> promo m = promo other"

section \<open>Zobrist hashing (main.cpp 229-274)\<close>

text \<open>
  \<^verbatim>\<open>initZobrist\<close> fills the key tables from the C library's \<^verbatim>\<open>rand()\<close> after
  \<^verbatim>\<open>srand(12345)\<close>. The generator belongs to the platform, not to the repository, so
  the four tables are a parameter of everything that hashes.
\<close>

record Zobrist =
  zobristPieces :: "int \<Rightarrow> int \<Rightarrow> int \<Rightarrow> U64"
  zobristCastle :: "int \<Rightarrow> U64"
  zobristEp :: "int \<Rightarrow> U64"
  zobristSide :: U64

text \<open>The three nested loops of \<^verbatim>\<open>zobristHash\<close> over colour, kind and square.\<close>

definition piece_hash :: "Zobrist \<Rightarrow> (int \<Rightarrow> int \<Rightarrow> U64) \<Rightarrow> U64 \<Rightarrow> U64" where
  "piece_hash z P hash0 =
    fold (\<lambda>c hash.
      fold (\<lambda>p hash.
        fold (\<lambda>sq hash. hash XOR zobristPieces z c p sq) (squares_of (P c p)) hash)
        [0..5] hash)
      [0..1] hash0"

definition zobristHash :: "Zobrist \<Rightarrow> Board \<Rightarrow> U64" where
  "zobristHash z b =
    (let hash = piece_hash z (pieces b) 0;
         hash = hash XOR zobristCastle z (castle b);
         hash = (if ep b \<noteq> - 1 then hash XOR zobristEp z (ep b) else hash);
         hash = (if side b = BLACK then hash XOR zobristSide z else hash)
     in hash)"

text \<open>\<^verbatim>\<open>Board::init\<close>: the start position.\<close>

definition init :: "Zobrist \<Rightarrow> Board" where
  "init z =
    (let P = (\<lambda>c p. 0 :: U64);
         P = P(WHITE := (P WHITE)(PAWN := 0xFF00, KNIGHT := 0x42, BISHOP := 0x24,
                                  ROOK := 0x81, QUEEN := 0x8, KING := 0x10));
         P = P(BLACK := (P BLACK)(PAWN := 0xFF000000000000, KNIGHT := 0x4200000000000000,
                                  BISHOP := 0x2400000000000000, ROOK := 0x8100000000000000,
                                  QUEEN := 0x800000000000000, KING := 0x1000000000000000));
         b = update \<lparr>pieces = P, occupied = (\<lambda>c. 0), all = 0, side = WHITE, ep = - 1,
                     castle = 15, hash = 0\<rparr>
     in b\<lparr>hash := zobristHash z b\<rparr>)"

section \<open>Attack generation (main.cpp 276-348, 876-901)\<close>

text \<open>
  \<^verbatim>\<open>initTables\<close> fills \<^verbatim>\<open>KingMoves[sq]\<close> and \<^verbatim>\<open>KnightMoves[sq]\<close> for the 64
  squares; the entry for \<open>sq\<close> is what the loop body computes for it.
\<close>

definition KingMoves :: "int \<Rightarrow> U64" where
  "KingMoves sq =
    (let x = sq mod 8; y = sq div 8
     in fold (\<lambda>dx km.
          fold (\<lambda>dy km.
            if dx = 0 \<and> dy = 0 then km
            else let nx = x + dx; ny = y + dy
                 in if nx \<ge> 0 \<and> nx < 8 \<and> ny \<ge> 0 \<and> ny < 8
                    then km OR bit_at (ny * 8 + nx) else km)
            [- 1..1] km)
          [- 1..1] 0)"

definition kdx :: "int list" where "kdx = [2, 2, - 2, - 2, 1, 1, - 1, - 1]"
definition kdy :: "int list" where "kdy = [1, - 1, 1, - 1, 2, - 2, 2, - 2]"

definition KnightMoves :: "int \<Rightarrow> U64" where
  "KnightMoves sq =
    (let x = sq mod 8; y = sq div 8
     in fold (\<lambda>i km.
          let nx = x + kdx ! i; ny = y + kdy ! i
          in if nx \<ge> 0 \<and> nx < 8 \<and> ny \<ge> 0 \<and> ny < 8
             then km OR bit_at (ny * 8 + nx) else km)
          [0..<8] 0)"

text \<open>
  One ray of \<^verbatim>\<open>get_rook_attacks\<close> / \<^verbatim>\<open>get_bishop_attacks\<close>: the
  \<^verbatim>\<open>for\<close> loop that starts at rank \<open>r\<close>, file \<open>f\<close>, steps by \<open>(dr, df)\<close>, adds each
  square and breaks after the first blocker. The loop condition bounds exactly the
  coordinates that move, in the direction they move: \<^verbatim>\<open>r <= 7\<close> when the rank grows,
  \<^verbatim>\<open>r >= 0\<close> when it shrinks, and the same for the file.
\<close>

function ray :: "int \<Rightarrow> int \<Rightarrow> int \<Rightarrow> int \<Rightarrow> U64 \<Rightarrow> U64 \<Rightarrow> U64" where
  "ray r f dr df blockers attacks =
    (if (dr \<noteq> 0 \<or> df \<noteq> 0) \<and> (dr > 0 \<longrightarrow> r \<le> 7) \<and> (dr < 0 \<longrightarrow> r \<ge> 0)
        \<and> (df > 0 \<longrightarrow> f \<le> 7) \<and> (df < 0 \<longrightarrow> f \<ge> 0)
     then let attacks' = attacks OR bit_at (r * 8 + f)
          in if bit_at (r * 8 + f) AND blockers \<noteq> 0 then attacks'
             else ray (r + dr) (f + df) dr df blockers attacks'
     else attacks)"
  by pat_completeness auto
termination
  by (relation "measure (\<lambda>(r, f, dr, df, blockers, attacks).
        if dr > 0 then nat (8 - r) else if dr < 0 then nat (r + 1)
        else if df > 0 then nat (8 - f) else nat (f + 1))") auto

declare ray.simps [simp del]

definition get_rook_attacks :: "int \<Rightarrow> U64 \<Rightarrow> U64" where
  "get_rook_attacks sq blockers =
    (let tr = sq div 8; tf = sq mod 8;
         attacks = 0;
         attacks = ray (tr + 1) tf 1 0 blockers attacks;
         attacks = ray (tr - 1) tf (- 1) 0 blockers attacks;
         attacks = ray tr (tf + 1) 0 1 blockers attacks;
         attacks = ray tr (tf - 1) 0 (- 1) blockers attacks
     in attacks)"

definition get_bishop_attacks :: "int \<Rightarrow> U64 \<Rightarrow> U64" where
  "get_bishop_attacks sq blockers =
    (let tr = sq div 8; tf = sq mod 8;
         attacks = 0;
         attacks = ray (tr + 1) (tf + 1) 1 1 blockers attacks;
         attacks = ray (tr + 1) (tf - 1) 1 (- 1) blockers attacks;
         attacks = ray (tr - 1) (tf + 1) (- 1) 1 blockers attacks;
         attacks = ray (tr - 1) (tf - 1) (- 1) (- 1) blockers attacks
     in attacks)"

definition is_attacked :: "int \<Rightarrow> int \<Rightarrow> Board \<Rightarrow> bool" where
  "is_attacked sq attacker b =
    (if (if attacker = WHITE
         then (sq \<ge> 9 \<and> sq mod 8 \<noteq> 0 \<and> bit_at (sq - 9) AND pieces b WHITE PAWN \<noteq> 0)
            \<or> (sq \<ge> 7 \<and> sq mod 8 \<noteq> 7 \<and> bit_at (sq - 7) AND pieces b WHITE PAWN \<noteq> 0)
         else (sq \<le> 56 \<and> sq mod 8 \<noteq> 0 \<and> bit_at (sq + 7) AND pieces b BLACK PAWN \<noteq> 0)
            \<or> (sq \<le> 54 \<and> sq mod 8 \<noteq> 7 \<and> bit_at (sq + 9) AND pieces b BLACK PAWN \<noteq> 0))
     then True
     else if KnightMoves sq AND pieces b attacker KNIGHT \<noteq> 0 then True
     else if KingMoves sq AND pieces b attacker KING \<noteq> 0 then True
     else if get_rook_attacks sq (all b)
               AND (pieces b attacker ROOK OR pieces b attacker QUEEN) \<noteq> 0 then True
     else if get_bishop_attacks sq (all b)
               AND (pieces b attacker BISHOP OR pieces b attacker QUEEN) \<noteq> 0 then True
     else False)"

definition isInCheck :: "Board \<Rightarrow> bool" where
  "isInCheck b =
    (if pieces b (side b) KING = 0 then False
     else let king_sq = ctzll (pieces b (side b) KING)
          in is_attacked king_sq (1 - side b) b)"

section \<open>Make-move (main.cpp 350-431)\<close>

text \<open>The two elementary updates of \<^verbatim>\<open>makeMove\<close>: \<^verbatim>\<open>b.hash ^= k\<close> and
  \<^verbatim>\<open>b.pieces[c][p] ^= w\<close>.\<close>

definition xor_hash :: "U64 \<Rightarrow> Board \<Rightarrow> Board" where
  "xor_hash k b = b\<lparr>hash := hash b XOR k\<rparr>"

definition xor_pieces :: "int \<Rightarrow> int \<Rightarrow> U64 \<Rightarrow> Board \<Rightarrow> Board" where
  "xor_pieces c p w b = b\<lparr>pieces := (pieces b)(c := (pieces b c)(p := pieces b c p XOR w))\<rparr>"

text \<open>Lines 364-372: the castling rights after the move.\<close>

definition castle_rights :: "Board \<Rightarrow> Move \<Rightarrow> int" where
  "castle_rights b m =
    (let c = castle b;
         c = (if piece m = KING then (if side b = WHITE then c AND NOT 3 else c AND NOT 12) else c);
         c = (if from_sq m = 0 \<or> to_sq m = 0 then c AND NOT 2 else c);
         c = (if from_sq m = 7 \<or> to_sq m = 7 then c AND NOT 1 else c);
         c = (if from_sq m = 56 \<or> to_sq m = 56 then c AND NOT 8 else c);
         c = (if from_sq m = 63 \<or> to_sq m = 63 then c AND NOT 4 else c)
     in c)"

text \<open>Lines 380-387: the capture loop over the opponent's kinds, left at the first hit.\<close>

fun handle_captures :: "Zobrist \<Rightarrow> int \<Rightarrow> Move \<Rightarrow> int list \<Rightarrow> Board \<Rightarrow> Board" where
  "handle_captures z opponent m [] b = b"
| "handle_captures z opponent m (p # ps) b =
    (if pieces b opponent p AND bit_at (to_sq m) \<noteq> 0
     then xor_hash (zobristPieces z opponent p (to_sq m))
            (xor_pieces opponent p (bit_at (to_sq m)) b)
     else handle_captures z opponent m ps b)"

text \<open>Lines 390-405: en passant, double push and promotion of a pawn move.\<close>

definition special_pawn :: "Zobrist \<Rightarrow> int \<Rightarrow> int \<Rightarrow> Move \<Rightarrow> Board \<Rightarrow> Board" where
  "special_pawn z opponent prev_ep m b0 =
    (let b = b0;
         b = (if to_sq m = prev_ep then
                (let captured_pawn_sq = (if side b = WHITE then to_sq m - 8 else to_sq m + 8)
                 in xor_hash (zobristPieces z opponent PAWN captured_pawn_sq)
                      (xor_pieces opponent PAWN (bit_at captured_pawn_sq) b))
              else b);
         b = (if \<bar>from_sq m - to_sq m\<bar> = 16 then
                (let b = b\<lparr>ep := (if side b = WHITE then from_sq m + 8 else from_sq m - 8)\<rparr>
                 in xor_hash (zobristEp z (ep b)) b)
              else b);
         b = (if promo m \<noteq> 0 then
                xor_hash (zobristPieces z (side b) (promo m) (to_sq m))
                  (xor_hash (zobristPieces z (side b) PAWN (to_sq m))
                    (xor_pieces (side b) (promo m) (bit_at (to_sq m))
                      (xor_pieces (side b) PAWN (bit_at (to_sq m)) b)))
              else b)
     in b)"

text \<open>Lines 406-426: the rook's half of a castling move.\<close>

definition castle_rook :: "Zobrist \<Rightarrow> int \<Rightarrow> int \<Rightarrow> int \<Rightarrow> Board \<Rightarrow> Board" where
  "castle_rook z c rook_from rook_to b =
     xor_hash (zobristPieces z c ROOK rook_to)
       (xor_hash (zobristPieces z c ROOK rook_from)
         (xor_pieces c ROOK (bit_at rook_from OR bit_at rook_to) b))"

definition special_king :: "Zobrist \<Rightarrow> Move \<Rightarrow> Board \<Rightarrow> Board" where
  "special_king z m b =
    (if \<bar>from_sq m - to_sq m\<bar> = 2 then
       (if to_sq m = 6 then castle_rook z WHITE 7 5 b
        else if to_sq m = 2 then castle_rook z WHITE 0 3 b
        else if to_sq m = 62 then castle_rook z BLACK 63 61 b
        else if to_sq m = 58 then castle_rook z BLACK 56 59 b
        else b)
     else b)"

text \<open>The stages of \<^verbatim>\<open>makeMove\<close>, in the order of the source.\<close>

text \<open>Lines 358-359: the moving piece leaves \<open>from\<close> and enters \<open>to\<close> in the hash.\<close>

definition mm_hash_piece :: "Zobrist \<Rightarrow> Move \<Rightarrow> Board \<Rightarrow> Board" where
  "mm_hash_piece z m b =
     xor_hash (zobristPieces z (side b) (piece m) (to_sq m))
       (xor_hash (zobristPieces z (side b) (piece m) (from_sq m)) b)"

text \<open>Line 361: the old en-passant key leaves the hash.\<close>

definition mm_hash_ep :: "Zobrist \<Rightarrow> Board \<Rightarrow> Board" where
  "mm_hash_ep z b = (if ep b \<noteq> - 1 then xor_hash (zobristEp z (ep b)) b else b)"

text \<open>Lines 362-374: the castling key is replaced by the key of the new rights.\<close>

definition mm_castle :: "Zobrist \<Rightarrow> Move \<Rightarrow> Board \<Rightarrow> Board" where
  "mm_castle z m b0 =
    (let b = xor_hash (zobristCastle z (castle b0)) b0;
         b = b\<lparr>castle := castle_rights b m\<rparr>
     in xor_hash (zobristCastle z (castle b)) b)"

text \<open>Lines 375-378: \<^verbatim>\<open>ep\<close> is reset and the piece word is flipped on both squares.\<close>

definition mm_move_piece :: "Move \<Rightarrow> Board \<Rightarrow> Board" where
  "mm_move_piece m b0 =
    (let from_bb = bit_at (from_sq m);
         to_bb = bit_at (to_sq m);
         b = b0\<lparr>ep := - 1\<rparr>
     in xor_pieces (side b) (piece m) (from_bb OR to_bb) b)"

text \<open>Lines 389-426: the special moves of pawn and king.\<close>

definition mm_special :: "Zobrist \<Rightarrow> int \<Rightarrow> int \<Rightarrow> Move \<Rightarrow> Board \<Rightarrow> Board" where
  "mm_special z opponent prev_ep m b =
    (if piece m = PAWN then special_pawn z opponent prev_ep m b
     else if piece m = KING then special_king z m b
     else b)"

text \<open>Lines 428-430: occupancy is rebuilt, the side flips and its key enters the hash.\<close>

definition mm_finish :: "Zobrist \<Rightarrow> int \<Rightarrow> Board \<Rightarrow> Board" where
  "mm_finish z opponent b = xor_hash (zobristSide z) ((update b)\<lparr>side := opponent\<rparr>)"

definition makeMove :: "Zobrist \<Rightarrow> Board \<Rightarrow> Move \<Rightarrow> Board" where
  "makeMove z b0 m =
    (let opponent = 1 - side b0;
         prev_ep = ep b0;
         b = mm_hash_piece z m b0;
         b = mm_hash_ep z b;
         b = mm_castle z m b;
         b = mm_move_piece m b;
         b = handle_captures z opponent m [PAWN..KING] b;
         b = mm_special z opponent prev_ep m b;
         b = mm_finish z opponent b
     in b)"

section \<open>Move generation (main.cpp 433-557)\<close>

definition isLegalMove :: "Zobrist \<Rightarrow> Board \<Rightarrow> Move \<Rightarrow> bool" where
  "isLegalMove z b m =
    (let copy = makeMove z b m
     in if pieces copy (side b) KING = 0 then False
        else let king_sq = ctzll (pieces copy (side b) KING)
             in \<not> is_attacked king_sq (side copy) copy)"

text \<open>Lines 454-493: the moves pushed for the pawn on \<open>from\<close>.\<close>

definition gen_pawn :: "Board \<Rightarrow> bool \<Rightarrow> int \<Rightarrow> Move list" where
  "gen_pawn b capturesOnly from =
    (let p = PAWN;
         dir = (if side b = WHITE then 8 else - 8);
         promo_rank = (if side b = WHITE then 7 else 0);
         pushes =
           (if \<not> capturesOnly then
              (let to_sq = from + dir
               in if to_sq \<ge> 0 \<and> to_sq < 64 \<and> all b AND bit_at to_sq = 0 then
                    (if to_sq div 8 = promo_rank then [mk_Move from to_sq p (- 1) QUEEN]
                     else Move3 from to_sq p #
                       (let start_rank = (if side b = WHITE then 1 else 6)
                        in if from div 8 = start_rank then
                             (let to_sq2 = from + 2 * dir
                              in if all b AND bit_at to_sq2 = 0
                                 then [Move3 from to_sq2 p] else [])
                           else []))
                  else [])
            else []);
         cap_dirs = [dir - 1, dir + 1];
         caps = concat (map (\<lambda>d.
                  let to = from + d
                  in if to < 0 \<or> to > 63 \<or> \<bar>from mod 8 - to mod 8\<bar> > 1 then []
                     else if occupied b (1 - side b) AND bit_at to \<noteq> 0 then
                       (if to div 8 = promo_rank then [mk_Move from to p 0 QUEEN]
                        else [Move3 from to p])
                     else if \<not> capturesOnly \<and> to = ep b then [Move3 from to p]
                     else []) cap_dirs)
     in pushes @ caps)"

text \<open>Lines 496-521: the castling moves, pushed while the king's square is visited.\<close>

definition gen_castling :: "Board \<Rightarrow> Move list" where
  "gen_castling b =
    (if \<not> isInCheck b then
       (if side b = WHITE then
          (if castle b AND 1 \<noteq> 0 \<and> all b AND 0x60 = 0
              \<and> \<not> is_attacked 5 BLACK b \<and> \<not> is_attacked 6 BLACK b
           then [Move3 4 6 KING] else []) @
          (if castle b AND 2 \<noteq> 0 \<and> all b AND 0xE = 0
              \<and> \<not> is_attacked 3 BLACK b \<and> \<not> is_attacked 2 BLACK b
           then [Move3 4 2 KING] else [])
        else
          (if castle b AND 4 \<noteq> 0 \<and> all b AND 0x6000000000000000 = 0
              \<and> \<not> is_attacked 61 WHITE b \<and> \<not> is_attacked 62 WHITE b
           then [Move3 60 62 KING] else []) @
          (if castle b AND 8 \<noteq> 0 \<and> all b AND 0xE00000000000000 = 0
              \<and> \<not> is_attacked 59 WHITE b \<and> \<not> is_attacked 58 WHITE b
           then [Move3 60 58 KING] else []))
     else [])"

text \<open>Lines 494-495 and 522-534: the target set \<^verbatim>\<open>attacks\<close> of a piece that is not a pawn.\<close>

definition gen_attacks :: "Board \<Rightarrow> bool \<Rightarrow> int \<Rightarrow> int \<Rightarrow> U64" where
  "gen_attacks b capturesOnly p from =
    (if p = KING \<and> \<not> capturesOnly then KingMoves from AND NOT (occupied b (side b))
     else
       (let attacks =
              (if p = KNIGHT then KnightMoves from
               else if p = BISHOP then get_bishop_attacks from (all b)
               else if p = ROOK then get_rook_attacks from (all b)
               else if p = QUEEN then get_rook_attacks from (all b) OR get_bishop_attacks from (all b)
               else if p = KING then KingMoves from
               else 0)
        in if capturesOnly then attacks AND occupied b (1 - side b)
           else attacks AND NOT (occupied b (side b))))"

text \<open>One turn of the inner \<^verbatim>\<open>while (bitboard)\<close> loop: everything pushed for the piece of
  kind \<open>p\<close> on \<open>from\<close>.\<close>

definition gen_piece :: "Board \<Rightarrow> bool \<Rightarrow> int \<Rightarrow> int \<Rightarrow> Move list" where
  "gen_piece b capturesOnly p from =
    (if p = PAWN then gen_pawn b capturesOnly from
     else (if p = KING \<and> \<not> capturesOnly then gen_castling b else [])
          @ map (\<lambda>to. Move3 from to p) (squares_of (gen_attacks b capturesOnly p from)))"

text \<open>Lines 448-544: the pseudo-legal list \<^verbatim>\<open>moves\<close>.\<close>

definition pseudoMoves :: "Board \<Rightarrow> bool \<Rightarrow> Move list" where
  "pseudoMoves b capturesOnly =
     concat (map (\<lambda>p. concat (map (gen_piece b capturesOnly p)
                                (squares_of (pieces b (side b) p))))
              [PAWN..KING])"

text \<open>Lines 546-556: the legality filter.\<close>

definition generateMoves :: "Zobrist \<Rightarrow> Board \<Rightarrow> bool \<Rightarrow> Move list" where
  "generateMoves z b capturesOnly = filter (isLegalMove z b) (pseudoMoves b capturesOnly)"

section \<open>Search tables (main.cpp 25-80)\<close>

subsection \<open>History table\<close>

text \<open>C++ integer division truncates towards zero.\<close>

definition cdiv :: "int \<Rightarrow> int \<Rightarrow> int" where
  "cdiv a d = (if a \<ge> 0 then a div d else - ((- a) div d))"

text \<open>\<^verbatim>\<open>HistoryTable::update\<close> on the array \<^verbatim>\<open>scores[2][64][64]\<close>.\<close>

definition history_update ::
    "(int \<Rightarrow> int \<Rightarrow> int \<Rightarrow> int) \<Rightarrow> int \<Rightarrow> int \<Rightarrow> int \<Rightarrow> int \<Rightarrow> (int \<Rightarrow> int \<Rightarrow> int \<Rightarrow> int)" where
  "history_update scores sd fr t depth =
    (let scores' = scores(sd := (scores sd)(fr := (scores sd fr)(t := scores sd fr t + depth * depth)))
     in if scores' sd fr t > 100000
        then (\<lambda>s f t'. if 0 \<le> s \<and> s < 2 \<and> 0 \<le> f \<and> f < 64 \<and> 0 \<le> t' \<and> t' < 64
                         then cdiv (scores' s f t') 2 else scores' s f t')
        else scores')"

definition history_get :: "(int \<Rightarrow> int \<Rightarrow> int \<Rightarrow> int) \<Rightarrow> int \<Rightarrow> int \<Rightarrow> int \<Rightarrow> int" where
  "history_get scores sd fr t = scores sd fr t"

subsection \<open>Killer table\<close>

text \<open>
  The table \<^verbatim>\<open>struct Move* killers[MAX_PLY][2]\<close> holds pointers, and its
  \<^verbatim>\<open>update\<close> and \<^verbatim>\<open>isKiller\<close> compare pointers. An address is a natural number;
  0 is the null pointer left by \<^verbatim>\<open>memset\<close>.
\<close>

type_synonym addr = nat

definition killer_update :: "(int \<Rightarrow> int \<Rightarrow> addr) \<Rightarrow> addr \<Rightarrow> int \<Rightarrow> (int \<Rightarrow> int \<Rightarrow> addr)" where
  "killer_update killers m ply =
    (if killers ply 0 \<noteq> m
     then killers(ply := (killers ply)(1 := killers ply 0, 0 := m))
     else killers)"

definition isKiller :: "(int \<Rightarrow> int \<Rightarrow> addr) \<Rightarrow> addr \<Rightarrow> int \<Rightarrow> bool" where
  "isKiller killers m ply \<longleftrightarrow> killers ply 0 = m \<or> killers ply 1 = m"

text \<open>
  The moves of a vector lie one after the other from the address of its storage:
  \<^verbatim>\<open>&moves[i]\<close> is \<open>elem_addr base i\<close>, a \<^verbatim>\<open>Move\<close> being six \<^verbatim>\<open>int\<close>s.
\<close>

definition sizeof_Move :: nat where "sizeof_Move = 24"

definition elem_addr :: "addr \<Rightarrow> nat \<Rightarrow> addr" where
  "elem_addr base i = base + sizeof_Move * i"

subsection \<open>Transposition table\<close>

record TTEntry =
  tt_hash :: U64
  tt_depth :: int
  tt_score :: int
  tt_flag :: int
  tt_bestMove :: int

definition TT_SIZE :: int where "TT_SIZE = 1048576"

abbreviation (input) TT_EXACT :: int where "TT_EXACT \<equiv> 0"
abbreviation (input) TT_ALPHA :: int where "TT_ALPHA \<equiv> 1"
abbreviation (input) TT_BETA :: int where "TT_BETA \<equiv> 2"

text \<open>The global tables and counters that \<^verbatim>\<open>search\<close> and \<^verbatim>\<open>quiescence\<close> read and
  write. \<open>allocs\<close> counts the move vectors handed out by \<^verbatim>\<open>generateMoves\<close> so far; it
  is not a variable of the source but the index under which the allocator's answer is
  looked up (see \<open>search\<close>).\<close>

record SearchState =
  historyTable :: "int \<Rightarrow> int \<Rightarrow> int \<Rightarrow> int"
  killerMoves :: "int \<Rightarrow> int \<Rightarrow> addr"
  transpositionTable :: "int \<Rightarrow> TTEntry"
  nodes :: int
  qnodes :: int
  allocs :: nat

section \<open>Move ordering (scoreMoves, main.cpp 560-593)\<close>

definition victimValues :: "int list" where
  "victimValues = [100, 300, 300, 500, 900, 10000]"

text \<open>Lines 571-576: the victim loop from \<^verbatim>\<open>KING\<close> down to \<^verbatim>\<open>PAWN\<close>, left at the first
  hit.\<close>

fun mvv_lva :: "Board \<Rightarrow> int list \<Rightarrow> Move \<Rightarrow> Move" where
  "mvv_lva b [] m = m"
| "mvv_lva b (p # ps) m =
    (if pieces b (1 - side b) p AND bit_at (to_sq m) \<noteq> 0
     then m\<lparr>score := 100000 + victimValues ! nat p * 10 - victimValues ! nat (piece m)\<rparr>
     else mvv_lva b ps m)"

text \<open>The body of the \<^verbatim>\<open>for (auto& m : moves)\<close> loop for the move stored at address
  \<open>a\<close>. \<open>ttMove\<close> is \<open>None\<close> for a null pointer.\<close>

definition scoreMove ::
    "Board \<Rightarrow> Move option \<Rightarrow> int \<Rightarrow> SearchState \<Rightarrow> addr \<Rightarrow> Move \<Rightarrow> Move" where
  "scoreMove b ttMove ply st a m =
    (if (case ttMove of None \<Rightarrow> False | Some t \<Rightarrow> move_eq m t) then m\<lparr>score := 1000000\<rparr>
     else
       (let m = (if occupied b (1 - side b) AND bit_at (to_sq m) \<noteq> 0
                 then mvv_lva b [KING, QUEEN, ROOK, BISHOP, KNIGHT, PAWN] m
                 else if isKiller (killerMoves st) a ply then m\<lparr>score := 90000\<rparr>
                 else m\<lparr>score := history_get (historyTable st) (side b) (from_sq m) (to_sq m)\<rparr>)
        in if promo m = QUEEN then m\<lparr>score := score m + 80000\<rparr> else m))"

text \<open>The scored vector before sorting: element \<open>i\<close> is scored at its own address.\<close>

definition scored :: "Move list \<Rightarrow> addr \<Rightarrow> Board \<Rightarrow> Move option \<Rightarrow> int \<Rightarrow> SearchState \<Rightarrow> Move list" where
  "scored moves base b ttMove ply st =
     map (\<lambda>(i, m). scoreMove b ttMove ply st (elem_addr base i) m) (enumerate 0 moves)"

text \<open>\<^verbatim>\<open>std::sort\<close> by descending score. It is not a stable sort: the order of moves
  with equal scores is the library's choice, and a library may permute them (libstdc++
  does in vectors of more than 16 elements). \<open>sort_key\<close> is the stable insertion sort, so
  the model and a given library may visit moves of equal score in different orders. The
  statements about \<open>scoreMoves\<close> below speak of the set of scored moves only, never of
  their order.\<close>

definition scoreMoves :: "Move list \<Rightarrow> addr \<Rightarrow> Board \<Rightarrow> Move option \<Rightarrow> int \<Rightarrow> SearchState \<Rightarrow> Move list" where
  "scoreMoves moves base b ttMove ply st =
     sort_key (\<lambda>m. - score m) (scored moves base b ttMove ply st)"

section \<open>Quiescence search (main.cpp 596-624)\<close>

text \<open>
  Where a vector of moves is stored is the allocator's choice, not the program's. The
  parameter \<open>heap\<close> gives, for the \<open>n\<close>-th vector that \<^verbatim>\<open>generateMoves\<close> returns during
  a run, the address of its storage; \<open>allocs\<close> counts the vectors.

  \<open>quiescence\<close> returns the score and the updated globals; \<open>q_loop\<close> is its
  \<^verbatim>\<open>for (const auto& m : captures)\<close> loop, with \<open>alpha\<close> as loop variable.
\<close>

function quiescence ::
    "Zobrist \<Rightarrow> (nat \<Rightarrow> addr) \<Rightarrow> Board \<Rightarrow> int \<Rightarrow> int \<Rightarrow> int \<Rightarrow> SearchState \<Rightarrow> int \<times> SearchState"
  and q_loop ::
    "Zobrist \<Rightarrow> (nat \<Rightarrow> addr) \<Rightarrow> Board \<Rightarrow> int \<Rightarrow> int \<Rightarrow> int \<Rightarrow> int \<Rightarrow> Move list \<Rightarrow> SearchState
      \<Rightarrow> int \<times> SearchState"
where
  "quiescence z heap b alpha beta depth st =
    (let st1 = st\<lparr>qnodes := qnodes st + 1\<rparr>;
         stand_pat = evaluate b
     in if stand_pat \<ge> beta then (beta, st1)
        else
          (let alpha1 = (if alpha < stand_pat then stand_pat else alpha)
           in if depth \<le> - MAX_QUIESCENCE_DEPTH then (stand_pat, st1)
              else
                (let captures = generateMoves z b True;
                     base = heap (allocs st1);
                     st2 = st1\<lparr>allocs := allocs st1 + 1\<rparr>;
                     captures = scoreMoves captures base b None 0 st2
                 in q_loop z heap b stand_pat alpha1 beta depth captures st2)))"
| "q_loop z heap b stand_pat alpha beta depth [] st = (alpha, st)"
| "q_loop z heap b stand_pat alpha beta depth (m # ms) st =
    (let gain = (if piece m \<noteq> PAWN then 900 else 200)
     in if stand_pat + gain < alpha \<and> depth < - 1
        then q_loop z heap b stand_pat alpha beta depth ms st
        else
          (let copy = makeMove z b m;
               r = quiescence z heap copy (- beta) (- alpha) (depth - 1) st;
               sc = - fst r
           in if sc \<ge> beta then (beta, snd r)
              else q_loop z heap b stand_pat (if sc > alpha then sc else alpha) beta depth
                     ms (snd r)))"
  by pat_completeness auto
termination
  by (relation "measures
        [\<lambda>x. case x of
                Inl (z, heap, b, alpha, beta, depth, st) \<Rightarrow> 2 * nat (depth + 6)
              | Inr (z, heap, b, sp, alpha, beta, depth, ms, st) \<Rightarrow> 2 * nat (depth + 6) - 1,
         \<lambda>x. case x of
                Inl (z, heap, b, alpha, beta, depth, st) \<Rightarrow> 0
              | Inr (z, heap, b, sp, alpha, beta, depth, ms, st) \<Rightarrow> length ms]")
    (auto simp: MAX_QUIESCENCE_DEPTH_def)

declare quiescence.simps [simp del]

section \<open>Alpha-beta search (main.cpp 627-792)\<close>

definition tt_index :: "Board \<Rightarrow> int" where
  "tt_index b = uint (hash b) mod TT_SIZE"

text \<open>Lines 642-644 and 653-655: a packed move is unpacked into three fields of a
  \<^verbatim>\<open>Move\<close>; line 781 packs one.\<close>

definition unpack_move :: "int \<Rightarrow> Move \<Rightarrow> Move" where
  "unpack_move bm m =
     m\<lparr>from_sq := bm AND 63, to_sq := drop_bit 6 bm AND 63, piece := drop_bit 12 bm AND 7\<rparr>"

definition pack_move :: "Move \<Rightarrow> int" where
  "pack_move m = from_sq m OR push_bit 6 (to_sq m) OR push_bit 12 (piece m)"

text \<open>Lines 639-650: the probe. \<open>Some\<close> is an early return of \<^verbatim>\<open>search\<close> with that score
  (and the caller's \<^verbatim>\<open>bestMove\<close> as the probe leaves it); \<open>depth\<close> is the depth after the
  check extension.\<close>

definition tt_probe ::
    "TTEntry \<Rightarrow> Board \<Rightarrow> int \<Rightarrow> int \<Rightarrow> int \<Rightarrow> Move \<Rightarrow> int \<Rightarrow> (int \<times> Move) option" where
  "tt_probe e b depth alpha beta bestMove ply =
    (if tt_hash e = hash b \<and> tt_depth e \<ge> depth then
       (if tt_flag e = TT_EXACT then
          Some (tt_score e, if ply = 0 then unpack_move (tt_bestMove e) bestMove else bestMove)
        else if tt_flag e = TT_ALPHA \<and> tt_score e \<le> alpha then Some (alpha, bestMove)
        else if tt_flag e = TT_BETA \<and> tt_score e \<ge> beta then Some (beta, bestMove)
        else None)
     else None)"

text \<open>Lines 664-667: the position after a null move.\<close>

definition null_flip :: "Zobrist \<Rightarrow> Board \<Rightarrow> Board" where
  "null_flip z b =
    (let copy = b;
         copy = copy\<lparr>side := 1 - side copy\<rparr>;
         copy = copy\<lparr>hash := hash copy XOR zobristSide z\<rparr>;
         copy = copy\<lparr>ep := - 1\<rparr>
     in copy)"

text \<open>A recursive call of \<^verbatim>\<open>search\<close>: board, depth, alpha, beta, bestMove, ply, nullMove
  and the globals; \<open>None\<close> when the call does not return.\<close>

type_synonym search_fn =
  "Board \<Rightarrow> int \<Rightarrow> int \<Rightarrow> int \<Rightarrow> Move \<Rightarrow> int \<Rightarrow> bool \<Rightarrow> SearchState \<Rightarrow> (int \<times> Move \<times> SearchState) option"

text \<open>The negated score of a recursive call, with the globals it leaves.\<close>

definition neg_search ::
    "search_fn \<Rightarrow> Board \<Rightarrow> int \<Rightarrow> int \<Rightarrow> int \<Rightarrow> int \<Rightarrow> bool \<Rightarrow> SearchState \<Rightarrow> (int \<times> SearchState) option" where
  "neg_search rec copy depth alpha beta ply nullMove st =
    (case rec copy depth alpha beta (mk_Move 0 0 0 (- 1) 0) ply nullMove st of
       None \<Rightarrow> None
     | Some (s, dummy, st') \<Rightarrow> Some (- s, st'))"

text \<open>Lines 699-712: the late-move reduction of the move at address \<open>a\<close>.\<close>

definition lmr_reduction ::
    "Board \<Rightarrow> Move \<Rightarrow> addr \<Rightarrow> int \<Rightarrow> int \<Rightarrow> bool \<Rightarrow> int \<Rightarrow> SearchState \<Rightarrow> int" where
  "lmr_reduction b m a moveCount depth inCheck ply st =
    (if moveCount > 4 \<and> depth \<ge> 3 \<and> \<not> inCheck
        \<and> occupied b (1 - side b) AND bit_at (to_sq m) = 0 \<and> promo m = 0
     then
       (let reduction = (if moveCount > 12 then 3 else if moveCount > 6 then 2 else 1)
        in if isKiller (killerMoves st) a ply
              \<or> history_get (historyTable st) (side b) (from_sq m) (to_sq m) > 5000
           then max 0 (reduction - 1) else reduction)
     else 0)"

text \<open>Lines 717-739: the principal-variation searches of one move.\<close>

definition pvs_search ::
    "search_fn \<Rightarrow> Board \<Rightarrow> int \<Rightarrow> int \<Rightarrow> int \<Rightarrow> int \<Rightarrow> int \<Rightarrow> int \<Rightarrow> SearchState
      \<Rightarrow> (int \<times> SearchState) option" where
  "pvs_search rec copy moveCount depth reduction alpha beta ply st =
    (case (if moveCount = 1
           then neg_search rec copy (depth - 1 - reduction) (- beta) (- alpha) (ply + 1) True st
           else
             (case neg_search rec copy (depth - 1 - reduction) (- alpha - 1) (- alpha) (ply + 1) True st of
                None \<Rightarrow> None
              | Some (sc, st1) \<Rightarrow>
                  if sc > alpha \<and> sc < beta
                  then neg_search rec copy (depth - 1) (- beta) (- alpha) (ply + 1) True st1
                  else Some (sc, st1))) of
       None \<Rightarrow> None
     | Some (sc, st2) \<Rightarrow>
         if reduction > 0 \<and> sc > alpha
         then neg_search rec copy (depth - 1) (- beta) (- alpha) (ply + 1) True st2
         else Some (sc, st2))"

text \<open>The variables of the move loop that outlive one turn.\<close>

record LoopState =
  l_alpha :: int
  l_bestScore :: int
  l_localBest :: Move
  l_bestMove :: Move
  l_state :: SearchState

text \<open>Lines 741-774: what one turn of the loop does with the score \<open>sc\<close> of its move
  (\<^verbatim>\<open>score\<close> in the source; the name is taken by the field of \<^verbatim>\<open>Move\<close>); the flag
  says whether the loop is left (\<^verbatim>\<open>break\<close>).\<close>

definition after_move ::
    "Board \<Rightarrow> Move \<Rightarrow> addr \<Rightarrow> int \<Rightarrow> int \<Rightarrow> int \<Rightarrow> bool \<Rightarrow> int \<Rightarrow> int \<Rightarrow> LoopState
      \<Rightarrow> LoopState \<times> bool" where
  "after_move b m a sc depth beta inCheck ply moveCount L0 =
    (let quiet = (occupied b (1 - side b) AND bit_at (to_sq m) = 0);
         L1 = (if sc > l_bestScore L0
               then L0\<lparr>l_bestScore := sc, l_localBest := m,
                        l_bestMove := (if ply = 0 then m else l_bestMove L0)\<rparr>
               else L0);
         L2 = (if sc > l_alpha L1
               then L1\<lparr>l_alpha := sc,
                        l_state := (if quiet
                                    then (l_state L1)\<lparr>historyTable :=
                                           history_update (historyTable (l_state L1)) (side b)
                                             (from_sq m) (to_sq m) depth\<rparr>
                                    else l_state L1)\<rparr>
               else L1)
     in if l_alpha L2 \<ge> beta then
          ((if quiet
            then L2\<lparr>l_state := (l_state L2)\<lparr>killerMoves :=
                                   killer_update (killerMoves (l_state L2)) a ply\<rparr>\<rparr>
            else L2), True)
        else if depth \<le> 2 \<and> \<not> inCheck \<and> moveCount > 8 \<and> quiet then
          (let futilityMargin = depth * 100
           in if evaluate b + futilityMargin < l_alpha L2 then (L2, True) else (L2, False))
        else (L2, False))"

text \<open>Lines 696-775: the loop over the sorted moves; \<open>i\<close> is the index of \<open>m\<close> in the
  vector at \<open>base\<close>.\<close>

fun search_loop ::
    "search_fn \<Rightarrow> Zobrist \<Rightarrow> Board \<Rightarrow> int \<Rightarrow> int \<Rightarrow> bool \<Rightarrow> int \<Rightarrow> addr \<Rightarrow> Move list \<Rightarrow> nat
      \<Rightarrow> LoopState \<Rightarrow> LoopState option" where
  "search_loop rec z b depth beta inCheck ply base [] i L = Some L"
| "search_loop rec z b depth beta inCheck ply base (m # ms) i L =
    (let moveCount = int i + 1;
         a = elem_addr base i;
         reduction = lmr_reduction b m a moveCount depth inCheck ply (l_state L);
         copy = makeMove z b m
     in case pvs_search rec copy moveCount depth reduction (l_alpha L) beta ply (l_state L) of
          None \<Rightarrow> None
        | Some (sc, st') \<Rightarrow>
            (case after_move b m a sc depth beta inCheck ply moveCount (L\<lparr>l_state := st'\<rparr>) of
               (L', brk) \<Rightarrow>
                 if brk then Some L'
                 else search_loop rec z b depth beta inCheck ply base ms (i + 1) L'))"

text \<open>Lines 678-791: move generation, the loop and the store into the table.\<close>

definition search_moves ::
    "search_fn \<Rightarrow> Zobrist \<Rightarrow> (nat \<Rightarrow> addr) \<Rightarrow> Board \<Rightarrow> int \<Rightarrow> int \<Rightarrow> int \<Rightarrow> Move \<Rightarrow> int \<Rightarrow> bool
      \<Rightarrow> Move \<Rightarrow> int \<Rightarrow> SearchState \<Rightarrow> (int \<times> Move \<times> SearchState) option" where
  "search_moves rec z heap b depth alpha beta bestMove ply inCheck ttMove ttIndex st0 =
    (let moves = generateMoves z b False;
         base = heap (allocs st0);
         st = st0\<lparr>allocs := allocs st0 + 1\<rparr>
     in if moves = [] then Some ((if inCheck then - MATE + ply else 0), bestMove, st)
        else
          (let moves = scoreMoves moves base b
                         (if tt_hash (transpositionTable st ttIndex) = hash b
                          then Some ttMove else None) ply st;
               bestMove = (if ply = 0 then hd moves else bestMove);
               origAlpha = alpha;
               L0 = \<lparr>l_alpha = alpha, l_bestScore = - INF_score,
                     l_localBest = mk_Move 0 0 0 (- 1) 0, l_bestMove = bestMove, l_state = st\<rparr>
           in case search_loop rec z b depth beta inCheck ply base moves 0 L0 of
                None \<Rightarrow> None
              | Some L \<Rightarrow>
                  (let bestScore = l_bestScore L;
                       e = \<lparr>tt_hash = hash b, tt_depth = depth, tt_score = bestScore,
                            tt_flag = (if bestScore \<le> origAlpha then TT_ALPHA
                                       else if bestScore \<ge> beta then TT_BETA else TT_EXACT),
                            tt_bestMove = pack_move (l_localBest L)\<rparr>;
                       st' = (l_state L)\<lparr>transpositionTable :=
                               (transpositionTable (l_state L))(ttIndex := e)\<rparr>
                   in Some (bestScore, l_bestMove L, st'))))"

text \<open>Lines 627-676: the entry of \<^verbatim>\<open>search\<close> up to the null-move search.\<close>

definition search_body ::
    "search_fn \<Rightarrow> Zobrist \<Rightarrow> (nat \<Rightarrow> addr) \<Rightarrow> Board \<Rightarrow> int \<Rightarrow> int \<Rightarrow> int \<Rightarrow> Move \<Rightarrow> int \<Rightarrow> bool
      \<Rightarrow> SearchState \<Rightarrow> (int \<times> Move \<times> SearchState) option" where
  "search_body rec z heap b depth0 alpha beta bestMove ply nullMove st0 =
    (let st = st0\<lparr>nodes := nodes st0 + 1\<rparr>;
         inCheck = isInCheck b;
         depth = (if inCheck then depth0 + 1 else depth0);
         ttIndex = tt_index b;
         ttEntry = transpositionTable st ttIndex
     in case tt_probe ttEntry b depth alpha beta bestMove ply of
          Some (s, bm) \<Rightarrow> Some (s, bm, st)
        | None \<Rightarrow>
            (let ttMove = (if tt_hash ttEntry = hash b \<and> tt_bestMove ttEntry \<noteq> 0
                           then unpack_move (tt_bestMove ttEntry) (mk_Move 0 0 0 (- 1) 0)
                           else mk_Move 0 0 0 (- 1) 0)
             in if depth \<le> 0 then
                  (case quiescence z heap b alpha beta 0 st of (s, st') \<Rightarrow> Some (s, bestMove, st'))
                else
                  (case (if nullMove \<and> \<not> inCheck \<and> depth \<ge> 3 \<and> ply > 0 then
                           (let copy = null_flip z b;
                                R = (if depth > 6 then 3 else 2)
                            in case neg_search rec copy (depth - 1 - R) (- beta) (- beta + 1)
                                      (ply + 1) False st of
                                 None \<Rightarrow> None
                               | Some (sc, st') \<Rightarrow> Some (sc \<ge> beta, st'))
                         else Some (False, st)) of
                     None \<Rightarrow> None
                   | Some (cutoff, st') \<Rightarrow>
                       if cutoff then Some (beta, bestMove, st')
                       else search_moves rec z heap b depth alpha beta bestMove ply inCheck
                              ttMove ttIndex st')))"

text \<open>
  \<^verbatim>\<open>search\<close> itself. Whether its recursion ends on every position is not evident
  from the code (the check extension undoes the decrement of \<open>depth\<close>), so the
  recursion is bounded by a fuel: \<open>None\<close> means the fuel ran out.
\<close>

primrec search ::
    "Zobrist \<Rightarrow> (nat \<Rightarrow> addr) \<Rightarrow> nat \<Rightarrow> search_fn" where
  "search z heap 0 = (\<lambda>b depth alpha beta bestMove ply nullMove st. None)"
| "search z heap (Suc n) = search_body (search z heap n) z heap"

section \<open>Notions used in the statements\<close>

text \<open>The twelve piece words of a board share no square.\<close>

definition disjoint_bitboards :: "Board \<Rightarrow> bool" where
  "disjoint_bitboards b \<longleftrightarrow>
     (\<forall>c \<in> {0, 1}. \<forall>p \<in> {0..5}. \<forall>c' \<in> {0, 1}. \<forall>p' \<in> {0..5}.
        (c, p) \<noteq> (c', p') \<longrightarrow> pieces b c p AND pieces b c' p' = 0)"

text \<open>
  The positions the engine can reach: the start position, and every position obtained
  from a reachable one by \<^verbatim>\<open>makeMove\<close> with a move that \<^verbatim>\<open>generateMoves\<close> returned for
  it, in either mode.
\<close>

inductive reachable :: "Zobrist \<Rightarrow> Board \<Rightarrow> bool" for z :: Zobrist where
  start: "reachable z (init z)"
| step: "reachable z b \<Longrightarrow> m \<in> set (generateMoves z b capturesOnly) \<Longrightarrow>
         reachable z (makeMove z b m)"

text \<open>The test \<^verbatim>\<open>ttMove && m == *ttMove\<close> of \<^verbatim>\<open>scoreMoves\<close>.\<close>

definition tt_match :: "Move option \<Rightarrow> Move \<Rightarrow> bool" where
  "tt_match ttMove m = (case ttMove of None \<Rightarrow> False | Some t \<Rightarrow> move_eq m t)"

text \<open>The promotion bonus that line 588 adds to whatever score the move has.\<close>

definition promo_bonus :: "Move \<Rightarrow> int" where
  "promo_bonus m = (if promo m = QUEEN then 80000 else 0)"

text \<open>
  \<open>v\<close> is the kind at which the victim loop of \<^verbatim>\<open>scoreMoves\<close> stops: the opponent has a
  piece of kind \<open>v\<close> on the target square of \<open>m\<close> and none of a higher kind. On a board
  with disjoint piece words it is the kind of the one piece that stands there.
\<close>

definition victim_kind :: "Board \<Rightarrow> Move \<Rightarrow> int \<Rightarrow> bool" where
  "victim_kind b m v \<longleftrightarrow>
     0 \<le> v \<and> v \<le> 5 \<and> pieces b (1 - side b) v AND bit_at (to_sq m) \<noteq> 0
     \<and> (\<forall>p. v < p \<and> p \<le> 5 \<longrightarrow> pieces b (1 - side b) p AND bit_at (to_sq m) = 0)"

section \<open>Concrete positions, moves and tables\<close>

text \<open>
  A key table to compute with. The engine's own keys come from the platform's
  \<^verbatim>\<open>rand()\<close>; every general statement below holds for all key tables.
\<close>

definition z0 :: Zobrist where
  "z0 = \<lparr>zobristPieces = (\<lambda>c p sq. word_of_int (1 + c * 1000003 + p * 7919 + sq * 104729 + (sq * sq + 17 * p) * 2654435761)),
         zobristCastle = (\<lambda>c. word_of_int (0x9E3779B97F4A7C15 * (c + 1))),
         zobristEp = (\<lambda>e. word_of_int (0xC2B2AE3D27D4EB4F * (e + 3))),
         zobristSide = 0xF00DFACE12345678\<rparr>"

text \<open>The tables after \<^verbatim>\<open>initTables\<close>: all zero.\<close>

definition st0 :: SearchState where
  "st0 = \<lparr>historyTable = (\<lambda>s f t. 0), killerMoves = (\<lambda>p i. 0),
          transpositionTable = (\<lambda>i. \<lparr>tt_hash = 0, tt_depth = 0, tt_score = 0, tt_flag = 0, tt_bestMove = 0\<rparr>),
          nodes = 0, qnodes = 0, allocs = 0\<rparr>"

text \<open>Five moves: e2-e4, a2-a3 and b2-b3 from the start position, and, in the position
  \<open>ep_board\<close> below, the capture Bf1xa6 and the en-passant capture e5xd6.\<close>

definition e2e4 :: Move where "e2e4 = Move3 12 28 PAWN"

definition a2a3 :: Move where "a2a3 = Move3 8 16 PAWN"

definition b2b3 :: Move where "b2b3 = Move3 9 17 PAWN"

definition bxa6 :: Move where "bxa6 = Move3 5 40 BISHOP"

definition exd6 :: Move where "exd6 = Move3 36 43 PAWN"

text \<open>The start position after e2-e4: Black to move, en-passant square e3 (20).\<close>

definition after_e2e4 :: Board where "after_e2e4 = makeMove z0 (init z0) e2e4"

text \<open>The position after 1. e4 a6 2. e5 d5: White to move, en-passant square d6 (43),
  the black pawn that just moved on d5 (35). The hash field is not read by move
  ordering.\<close>

definition ep_board :: Board where
  "ep_board =
    \<lparr>pieces = (\<lambda>c p.
        if c = WHITE then
          (if p = PAWN then 0x100000EF00 else if p = KNIGHT then 0x42
           else if p = BISHOP then 0x24 else if p = ROOK then 0x81
           else if p = QUEEN then 0x8 else if p = KING then 0x10 else 0)
        else if c = BLACK then
          (if p = PAWN then 0xF6010800000000 else if p = KNIGHT then 0x4200000000000000
           else if p = BISHOP then 0x2400000000000000 else if p = ROOK then 0x8100000000000000
           else if p = QUEEN then 0x800000000000000 else if p = KING then 0x1000000000000000
           else 0)
        else 0),
      occupied = (\<lambda>c. if c = WHITE then 0x100000EFFF else if c = BLACK then 0xFFF6010800000000 else 0),
      all = 0xFFF601180000EFFF, side = WHITE, ep = 43, castle = 15, hash = 0\<rparr>"

text \<open>The same position as \<^verbatim>\<open>makeMove\<close> produces it (lemma \<open>ep_board_played\<close> compares
  every field but the hash).\<close>

definition played :: Board where
  "played = makeMove z0 (makeMove z0 (makeMove z0 after_e2e4 (Move3 48 40 PAWN))
              (Move3 28 36 PAWN)) (Move3 51 35 PAWN)"

text \<open>The tables after \<^verbatim>\<open>killerMoves.update(&moves[0], 0)\<close> for a vector stored at
  address 4096.\<close>

definition killer_state :: SearchState where
  "killer_state = st0\<lparr>killerMoves := killer_update (killerMoves st0) (elem_addr 4096 0) 0\<rparr>"

text \<open>The loop variables before the first move of a node with \<open>alpha = 0\<close>, and the turn
  of the loop for the quiet move a2-a3 with score 10 at depth 3, \<open>beta = 100\<close>, ply 1.\<close>

definition loop0 :: LoopState where
  "loop0 = \<lparr>l_alpha = 0, l_bestScore = - INF_score, l_localBest = mk_Move 0 0 0 (- 1) 0,
            l_bestMove = mk_Move 0 0 0 (- 1) 0, l_state = st0\<rparr>"

definition quiet_step :: "LoopState \<times> bool" where
  "quiet_step = after_move (init z0) a2a3 (elem_addr 4096 0) 10 3 100 False 1 1 loop0"

text \<open>A transposition table whose every slot holds an entry for the start position, of
  depth 5, with the given flag and score.\<close>

definition tt_state :: "int \<Rightarrow> int \<Rightarrow> SearchState" where
  "tt_state flag sc =
     st0\<lparr>transpositionTable := (\<lambda>i. \<lparr>tt_hash = hash (init z0), tt_depth = 5, tt_score = sc,
                                        tt_flag = flag, tt_bestMove = 0\<rparr>)\<rparr>"

section \<open>Auxiliary notions of the proofs\<close>

text \<open>The contribution of one piece word to the Zobrist hash, with key row \<open>f\<close>.\<close>

definition bb_hash :: "(int \<Rightarrow> U64) \<Rightarrow> U64 \<Rightarrow> U64" where
  "bb_hash f w = fold (\<lambda>sq h. h XOR f sq) (squares_of w) 0"

text \<open>
  \<open>defect\<close> is what remains of the hash field when the piece keys are taken out; the
  hash field is coherent exactly when this is \<open>aux_key\<close>, the keys of castling rights,
  en-passant square and side.
\<close>

definition defect :: "Zobrist \<Rightarrow> Board \<Rightarrow> U64" where
  "defect z b = hash b XOR piece_hash z (pieces b) 0"

definition aux_key :: "Zobrist \<Rightarrow> Board \<Rightarrow> U64" where
  "aux_key z b = zobristCastle z (castle b)
      XOR (if ep b \<noteq> - 1 then zobristEp z (ep b) else 0)
      XOR (if side b = BLACK then zobristSide z else 0)"

text \<open>What the hash update of \<^verbatim>\<open>makeMove\<close> needs of a move, and every generated move
  has: squares and kinds in range, two different squares, and a pawn that moves forward
  and stays clear of its own back rank.\<close>

definition move_ok :: "int \<Rightarrow> Move \<Rightarrow> bool" where
  "move_ok sd m \<longleftrightarrow>
     0 \<le> from_sq m \<and> from_sq m < 64 \<and> 0 \<le> to_sq m \<and> to_sq m < 64 \<and> from_sq m \<noteq> to_sq m
     \<and> 0 \<le> piece m \<and> piece m \<le> 5 \<and> 0 \<le> promo m \<and> promo m \<le> 5
     \<and> (piece m = PAWN \<longrightarrow>
           (if sd = WHITE then from_sq m < to_sq m \<and> 8 \<le> to_sq m
            else to_sq m < from_sq m \<and> to_sq m \<le> 55))"

text \<open>The loop condition of \<open>ray\<close>.\<close>

definition loop_cond :: "int \<Rightarrow> int \<Rightarrow> int \<Rightarrow> int \<Rightarrow> bool" where
  "loop_cond r f dr df \<longleftrightarrow> (dr \<noteq> 0 \<or> df \<noteq> 0) \<and> (dr > 0 \<longrightarrow> r \<le> 7) \<and> (dr < 0 \<longrightarrow> r \<ge> 0)
        \<and> (df > 0 \<longrightarrow> f \<le> 7) \<and> (df < 0 \<longrightarrow> f \<ge> 0)"

section \<open>Bitboard loops\<close>

text \<open>
  The pop-lowest-bit loop visits exactly the set bits of a word, in ascending order.
  This is what relates \<open>squares_of\<close> to \<open>popcountll\<close> and makes the hash of a piece word
  additive under \<open>XOR\<close>.
\<close>

lemma ctzll_props:
  assumes "w \<noteq> 0"
  shows "\<exists>k. ctzll w = int k \<and> k < 64 \<and> bit w k \<and> (\<forall>i<k. \<not> bit w i)"
proof -
  let ?P = "\<lambda>i. \<not> bit w i"
  let ?k = "length (takeWhile ?P [0..<64])"
  from assms obtain j where j: "bit w j" by (auto simp: bit_eq_iff)
  then have j64: "j < 64" by (auto dest: bit_imp_le_length)
  have "?k < 64"
  proof (rule ccontr)
    assume "\<not> ?k < 64"
    then have "?k = length [0..<64]" using length_takeWhile_le [of ?P "[0..<64]"] by simp
    then have "takeWhile ?P [0..<64] = [0..<64]"
      by (metis takeWhile_eq_take take_all order_refl)
    then have "\<forall>x\<in>set [0..<64]. ?P x" by (metis set_takeWhileD)
    with j j64 show False by simp
  qed
  moreover have "bit w ?k"
    using nth_length_takeWhile [of ?P "[0..<64]"] \<open>?k < 64\<close> by simp
  moreover have "\<forall>i<?k. \<not> bit w i"
  proof (intro allI impI)
    fix i assume i: "i < ?k"
    then have "takeWhile ?P [0..<64] ! i = [0..<64] ! i" by (rule takeWhile_nth)
    moreover have "takeWhile ?P [0..<64] ! i \<in> set (takeWhile ?P [0..<64])" using i by simp
    ultimately have "?P ([0..<64] ! i)" by (metis set_takeWhileD)
    moreover have "i < 64" using i \<open>?k < 64\<close> by simp
    ultimately show "\<not> bit w i" by simp
  qed
  ultimately show ?thesis unfolding ctzll_def by blast
qed

lemma clear_lowest_bit:
  fixes w :: U64
  assumes k: "bit w k" and low: "\<forall>i<k. \<not> bit w i"
  shows "bit (w AND (w - 1)) i \<longleftrightarrow> bit w i \<and> i \<noteq> k"
proof -
  have k64: "k < 64" using k by (auto dest: bit_imp_le_length)
  have d1: "w - 2 ^ k = w AND NOT (2 ^ k)"
    by (rule disjunctive_diff) (use k in \<open>auto simp: bit_exp_iff\<close>)
  have "w - 1 = (w - 2 ^ k) + mask k" by (simp add: mask_eq_decr_exp)
  also have "\<dots> = (w AND NOT (2 ^ k)) OR mask k"
    unfolding d1
    by (rule disjunctive_add) (use low in \<open>auto simp: bit_and_iff bit_mask_iff\<close>)
  finally have "w - 1 = (w AND NOT (2 ^ k)) OR mask k" .
  then show ?thesis
    using low k64 by (auto simp: bit_and_iff bit_or_iff bit_not_iff bit_mask_iff bit_exp_iff dest: bit_imp_le_length)
qed

lemma squares_of_filter: "squares_of w = map int (filter (bit w) [0..<64])"
proof (induction w rule: squares_of.induct)
  case (1 w)
  show ?case
  proof (cases "w = 0")
    case True
    then show ?thesis by (simp add: squares_of.simps)
  next
    case False
    from ctzll_props [OF False] obtain k where
      k: "ctzll w = int k" "k < 64" "bit w k" "\<forall>i<k. \<not> bit w i" by blast
    let ?w' = "w AND (w - 1)"
    have b: "\<And>i. bit ?w' i \<longleftrightarrow> bit w i \<and> i \<noteq> k"
      using clear_lowest_bit [OF k(3) k(4)] .
    have split: "[0..<64] = [0..<k] @ k # [Suc k..<64]"
      using k(2) by (metis le_add2 le_add_same_cancel2 less_imp_add_positive upt_add_eq_append upt_conv_Cons)
    have f1: "filter (bit w) [0..<k] = []" using k(4) by (auto simp: filter_empty_conv)
    have f2: "filter (bit ?w') [0..<k] = []" using k(4) b by (auto simp: filter_empty_conv)
    have f3: "filter (bit ?w') [Suc k..<64] = filter (bit w) [Suc k..<64]"
      by (rule filter_cong) (auto simp: b)
    have "filter (bit w) [0..<64] = k # filter (bit w) [Suc k..<64]"
      by (subst split) (simp add: f1 k(3))
    moreover have "filter (bit ?w') [0..<64] = filter (bit w) [Suc k..<64]"
      by (subst split) (simp add: f2 f3 b)
    ultimately show ?thesis
      using 1 [OF False] False k(1) by (subst squares_of.simps) simp
  qed
qed

lemma length_squares_of: "int (length (squares_of w)) = popcountll w"
  by (simp add: squares_of_filter popcountll_def)

lemma squares_of_range: "sq \<in> set (squares_of w) \<Longrightarrow> 0 \<le> sq \<and> sq < 64"
  by (auto simp: squares_of_filter)

lemma popcountll_nonneg: "0 \<le> popcountll w"
  by (simp add: popcountll_def)

lemma popcountll_le_64: "popcountll w \<le> 64"
proof -
  have "length (filter (bit w) [0..<64]) \<le> length [0..<64]" by (rule length_filter_le)
  then show ?thesis by (simp add: popcountll_def)
qed

lemma length_filter_mono:
  "(\<And>x. x \<in> set xs \<Longrightarrow> P x \<Longrightarrow> Q x) \<Longrightarrow> length (filter P xs) \<le> length (filter Q xs)"
  by (induction xs) auto

lemma popcountll_and_le: "popcountll (a AND c) \<le> popcountll a"
  unfolding popcountll_def
  using length_filter_mono [of "[0..<64]" "bit (a AND c)" "bit a"]
  by (simp add: bit_and_iff)

lemma length_filter_disj:
  "(\<And>x. x \<in> set xs \<Longrightarrow> \<not> (P x \<and> Q x)) \<Longrightarrow>
   length (filter (\<lambda>x. P x \<or> Q x) xs) = length (filter P xs) + length (filter Q xs)"
  by (induction xs) auto

lemma popcountll_disjoint_or:
  assumes "a AND c = 0"
  shows "popcountll (a OR c) = popcountll a + popcountll c"
proof -
  have "\<not> (bit a i \<and> bit c i)" for i
  proof -
    have "bit (a AND c) i = bit (0::U64) i" by (simp add: assms)
    then show ?thesis by (simp add: bit_and_iff)
  qed
  then have "length (filter (\<lambda>i. bit a i \<or> bit c i) [0..<64]) =
             length (filter (bit a) [0..<64]) + length (filter (bit c) [0..<64])"
    by (intro length_filter_disj) simp
  moreover have "bit (a OR c) = (\<lambda>i. bit a i \<or> bit c i)"
    by (simp add: fun_eq_iff bit_or_iff)
  ultimately show ?thesis by (simp add: popcountll_def)
qed

section \<open>Bounds on the evaluation terms\<close>

lemma eval_material_explicit:
  "eval_material b e = e
     + (popcountll (pieces b 0 0) * 100 + popcountll (pieces b 0 1) * 320
        + popcountll (pieces b 0 2) * 330 + popcountll (pieces b 0 3) * 500
        + popcountll (pieces b 0 4) * 900)
     - (popcountll (pieces b 1 0) * 100 + popcountll (pieces b 1 1) * 320
        + popcountll (pieces b 1 2) * 330 + popcountll (pieces b 1 3) * 500
        + popcountll (pieces b 1 4) * 900)"
  by (simp add: eval_material_def piece_values_def upto.simps Let_def)

lemma popcount_six:
  fixes a0 a1 a2 a3 a4 a5 :: U64
  assumes "a0 AND a1 = 0" "a0 AND a2 = 0" "a0 AND a3 = 0" "a0 AND a4 = 0" "a0 AND a5 = 0"
    "a1 AND a2 = 0" "a1 AND a3 = 0" "a1 AND a4 = 0" "a1 AND a5 = 0"
    "a2 AND a3 = 0" "a2 AND a4 = 0" "a2 AND a5 = 0"
    "a3 AND a4 = 0" "a3 AND a5 = 0" "a4 AND a5 = 0"
  shows "popcountll a0 + popcountll a1 + popcountll a2 + popcountll a3 + popcountll a4
         + popcountll a5 \<le> 64"
proof -
  have 1: "popcountll (a4 OR a5) = popcountll a4 + popcountll a5"
    using assms by (intro popcountll_disjoint_or) simp
  have 2: "popcountll (a3 OR a4 OR a5) = popcountll a3 + popcountll (a4 OR a5)"
    using assms by (intro popcountll_disjoint_or) (simp add: bit.conj_disj_distrib)
  have 3: "popcountll (a2 OR a3 OR a4 OR a5) = popcountll a2 + popcountll (a3 OR a4 OR a5)"
    using assms by (intro popcountll_disjoint_or) (simp add: bit.conj_disj_distrib)
  have 4: "popcountll (a1 OR a2 OR a3 OR a4 OR a5) =
           popcountll a1 + popcountll (a2 OR a3 OR a4 OR a5)"
    using assms by (intro popcountll_disjoint_or) (simp add: bit.conj_disj_distrib)
  have 5: "popcountll (a0 OR a1 OR a2 OR a3 OR a4 OR a5) =
           popcountll a0 + popcountll (a1 OR a2 OR a3 OR a4 OR a5)"
    using assms by (intro popcountll_disjoint_or) (simp add: bit.conj_disj_distrib)
  show ?thesis
    using popcountll_le_64 [of "a0 OR a1 OR a2 OR a3 OR a4 OR a5"] 1 2 3 4 5 by simp
qed

lemma side_popcount:
  assumes "disjoint_bitboards b" "c = 0 \<or> c = 1"
  shows "popcountll (pieces b c 0) + popcountll (pieces b c 1) + popcountll (pieces b c 2)
         + popcountll (pieces b c 3) + popcountll (pieces b c 4) + popcountll (pieces b c 5) \<le> 64"
  using assms unfolding disjoint_bitboards_def
  by (intro popcount_six) auto

lemma eval_king_bounds: "e - 60 \<le> eval_king b e \<and> eval_king b e \<le> e + 60"
  by (simp add: eval_king_def upto.simps Let_def)

lemma fold_rank_bonus_w:
  assumes "\<forall>sq \<in> set xs. 0 \<le> sq \<and> sq < 64"
  shows "e \<le> fold (\<lambda>sq eval. let rank = sq div 8 in
             if rank \<ge> 4 then eval + (rank - 3) * 15 else eval) xs e
       \<and> fold (\<lambda>sq eval. let rank = sq div 8 in
             if rank \<ge> 4 then eval + (rank - 3) * 15 else eval) xs e \<le> e + 60 * int (length xs)"
  using assms
proof (induction xs arbitrary: e)
  case Nil
  then show ?case by simp
next
  case (Cons sq xs)
  have r: "0 \<le> sq div 8" "sq div 8 \<le> 7" using Cons.prems by auto
  let ?e' = "(if sq div 8 \<ge> 4 then e + (sq div 8 - 3) * 15 else e)"
  have "e \<le> ?e'" "?e' \<le> e + 60" using r by auto
  moreover have "\<forall>sq \<in> set xs. 0 \<le> sq \<and> sq < 64" using Cons.prems by simp
  from Cons.IH [OF this, of ?e'] show ?case using calculation by (simp add: Let_def)
qed

lemma fold_rank_bonus_b:
  assumes "\<forall>sq \<in> set xs. 0 \<le> sq \<and> sq < 64"
  shows "e - 60 * int (length xs) \<le> fold (\<lambda>sq eval. let rank = sq div 8 in
             if rank \<le> 3 then eval - (4 - rank) * 15 else eval) xs e
       \<and> fold (\<lambda>sq eval. let rank = sq div 8 in
             if rank \<le> 3 then eval - (4 - rank) * 15 else eval) xs e \<le> e"
  using assms
proof (induction xs arbitrary: e)
  case Nil
  then show ?case by simp
next
  case (Cons sq xs)
  have r: "0 \<le> sq div 8" "sq div 8 \<le> 7" using Cons.prems by auto
  let ?e' = "(if sq div 8 \<le> 3 then e - (4 - sq div 8) * 15 else e)"
  have "e - 60 \<le> ?e'" "?e' \<le> e" using r by auto
  moreover have "\<forall>sq \<in> set xs. 0 \<le> sq \<and> sq < 64" using Cons.prems by simp
  from Cons.IH [OF this, of ?e'] show ?case using calculation by (simp add: Let_def)
qed

lemma eval_wpawns_bounds:
  "e \<le> eval_wpawns b e \<and> eval_wpawns b e \<le> e + 60 * popcountll (pieces b 0 0)"
  unfolding eval_wpawns_def
  using fold_rank_bonus_w [of "squares_of (pieces b 0 0)" e]
  by (simp add: squares_of_range length_squares_of)

lemma eval_bpawns_bounds:
  "e - 60 * popcountll (pieces b 1 0) \<le> eval_bpawns b e \<and> eval_bpawns b e \<le> e"
  unfolding eval_bpawns_def
  using fold_rank_bonus_b [of "squares_of (pieces b 1 0)" e]
  by (simp add: squares_of_range length_squares_of)

lemma eval_center_bounds:
  "e - 20 * popcountll (pieces b 1 0) \<le> eval_center b e \<and>
   eval_center b e \<le> e + 20 * popcountll (pieces b 0 0)"
  unfolding eval_center_def
  using popcountll_and_le [of "pieces b 0 0" center] popcountll_and_le [of "pieces b 1 0" center]
    popcountll_nonneg [of "pieces b 0 0 AND center"] popcountll_nonneg [of "pieces b 1 0 AND center"]
  by simp

section \<open>The Zobrist hash is linear in the piece words\<close>

lemma fold_xor_acc:
  "fold (\<lambda>x h. h XOR g x) xs (h :: U64) = h XOR fold (\<lambda>x h. h XOR g x) xs 0"
proof (induction xs arbitrary: h)
  case Nil
  then show ?case by simp
next
  case (Cons x xs)
  show ?case
    by (simp, subst Cons.IH, subst (2) Cons.IH) (simp add: ac_simps)
qed

lemma fold_bb_hash:
  "fold (\<lambda>sq h. h XOR f sq) (squares_of w) h = h XOR bb_hash f w"
  unfolding bb_hash_def by (rule fold_xor_acc)

lemma fold_xor_filter:
  "fold (\<lambda>sq h. h XOR f sq) (map int (filter P xs)) (h :: U64)
   = fold (\<lambda>i h. h XOR (if P i then f (int i) else 0)) xs h"
  by (induction xs arbitrary: h) auto

lemma bb_hash_canon:
  "bb_hash f w = fold (\<lambda>i h. h XOR (if bit w i then f (int i) else 0)) [0..<64] 0"
  by (simp add: bb_hash_def squares_of_filter fold_xor_filter)

lemma fold_xor_pointwise:
  "fold (\<lambda>i h. h XOR (g i XOR g' i)) xs (h XOR h')
   = fold (\<lambda>i h. h XOR g i) xs (h :: U64) XOR fold (\<lambda>i h. h XOR g' i) xs h'"
proof (induction xs arbitrary: h h')
  case Nil
  then show ?case by simp
next
  case (Cons x xs)
  have e: "(h XOR h') XOR (g x XOR g' x) = (h XOR g x) XOR (h' XOR g' x)"
    by (simp add: ac_simps)
  show ?case by (simp only: fold_simps o_apply e Cons.IH)
qed

lemma bb_hash_xor: "bb_hash f (w XOR v) = bb_hash f w XOR bb_hash f v"
proof -
  have "(\<lambda>i (h::U64). h XOR (if bit (w XOR v) i then f (int i) else 0))
      = (\<lambda>i h. h XOR ((if bit w i then f (int i) else 0) XOR (if bit v i then f (int i) else 0)))"
    by (auto simp: fun_eq_iff bit_xor_iff)
  then show ?thesis
    using fold_xor_pointwise [of "\<lambda>i. if bit w i then f (int i) else 0"
        "\<lambda>i. if bit v i then f (int i) else 0" "[0..<64]" 0 0]
    by (simp add: bb_hash_canon)
qed

lemma bit_bit_at: "bit (bit_at sq) i \<longleftrightarrow> i = nat sq \<and> nat sq < 64"
  by (auto simp: bit_at_def bit_exp_iff)

lemma fold_xor_single:
  "distinct xs \<Longrightarrow>
   fold (\<lambda>i h. h XOR (if i = n then c else 0)) xs (h :: U64) = h XOR (if n \<in> set xs then c else 0)"
  by (induction xs arbitrary: h) auto

lemma bb_hash_bit_at:
  assumes "0 \<le> sq" "sq < 64"
  shows "bb_hash f (bit_at sq) = f sq"
proof -
  have "(\<lambda>i (h::U64). h XOR (if bit (bit_at sq) i then f (int i) else 0))
      = (\<lambda>i h. h XOR (if i = nat sq then f sq else 0))"
    using assms by (auto simp: fun_eq_iff bit_bit_at)
  moreover have "nat sq < 64" using assms by simp
  ultimately show ?thesis
    using fold_xor_single [of "[0..<64]" "nat sq" "f sq" 0]
    by (simp add: bb_hash_canon)
qed

lemma bit_at_or_xor:
  assumes "0 \<le> a" "a < 64" "0 \<le> c" "c < 64" "a \<noteq> c"
  shows "bit_at a OR bit_at c = bit_at a XOR bit_at c"
  using assms by (intro bit_eqI) (auto simp: bit_or_iff bit_xor_iff bit_bit_at)

lemma bb_hash_two:
  assumes "0 \<le> a" "a < 64" "0 \<le> c" "c < 64" "a \<noteq> c"
  shows "bb_hash f (bit_at a OR bit_at c) = f a XOR f c"
  using assms by (simp add: bit_at_or_xor bb_hash_xor bb_hash_bit_at)

lemma piece_hash_explicit:
  "piece_hash z P h = h
     XOR bb_hash (zobristPieces z 0 0) (P 0 0) XOR bb_hash (zobristPieces z 0 1) (P 0 1)
     XOR bb_hash (zobristPieces z 0 2) (P 0 2) XOR bb_hash (zobristPieces z 0 3) (P 0 3)
     XOR bb_hash (zobristPieces z 0 4) (P 0 4) XOR bb_hash (zobristPieces z 0 5) (P 0 5)
     XOR bb_hash (zobristPieces z 1 0) (P 1 0) XOR bb_hash (zobristPieces z 1 1) (P 1 1)
     XOR bb_hash (zobristPieces z 1 2) (P 1 2) XOR bb_hash (zobristPieces z 1 3) (P 1 3)
     XOR bb_hash (zobristPieces z 1 4) (P 1 4) XOR bb_hash (zobristPieces z 1 5) (P 1 5)"
  by (simp add: piece_hash_def upto.simps fold_bb_hash ac_simps)

lemma piece_hash_xor:
  assumes "c = 0 \<or> c = 1" "0 \<le> p" "p \<le> 5"
  shows "piece_hash z (P(c := (P c)(p := P c p XOR w))) h
       = piece_hash z P h XOR bb_hash (zobristPieces z c p) w"
proof -
  from assms have "p = 0 \<or> p = 1 \<or> p = 2 \<or> p = 3 \<or> p = 4 \<or> p = 5" by auto
  with assms(1) show ?thesis
    by (elim disjE) (simp_all add: piece_hash_explicit bb_hash_xor ac_simps)
qed

section \<open>Make-move keeps the hash coherent\<close>

text \<open>
  Each stage of \<^verbatim>\<open>makeMove\<close> is followed through \<open>defect\<close>: whenever a piece word is
  flipped on a square, the key of that square is flipped in the hash, so the defect only
  changes by the keys of castling rights, en-passant square and side.
\<close>

lemma coherent_iff: "hash b = zobristHash z b \<longleftrightarrow> defect z b = aux_key z b"
proof -
  have "zobristHash z b = piece_hash z (pieces b) 0 XOR aux_key z b"
    by (simp add: zobristHash_def aux_key_def Let_def ac_simps)
  moreover have "hash b = x XOR y \<longleftrightarrow> hash b XOR x = y" for x y :: U64
  proof
    assume "hash b = x XOR y"
    then show "hash b XOR x = y" by (simp add: ac_simps)
  next
    assume "hash b XOR x = y"
    then have "x XOR y = x XOR (hash b XOR x)" by simp
    then show "hash b = x XOR y" by (simp add: ac_simps)
  qed
  ultimately show ?thesis by (simp add: defect_def)
qed

lemma xor_hash_fields [simp]:
  "pieces (xor_hash k b) = pieces b" "castle (xor_hash k b) = castle b"
  "ep (xor_hash k b) = ep b" "side (xor_hash k b) = side b"
  "hash (xor_hash k b) = hash b XOR k"
  by (simp_all add: xor_hash_def)

lemma xor_pieces_fields [simp]:
  "castle (xor_pieces c p w b) = castle b" "hash (xor_pieces c p w b) = hash b"
  "ep (xor_pieces c p w b) = ep b" "side (xor_pieces c p w b) = side b"
  by (simp_all add: xor_pieces_def)

lemma update_fields [simp]:
  "pieces (update b) = pieces b" "castle (update b) = castle b"
  "ep (update b) = ep b" "side (update b) = side b" "hash (update b) = hash b"
  by (simp_all add: update_def Let_def)

lemma defect_xor_hash [simp]: "defect z (xor_hash k b) = defect z b XOR k"
  by (simp add: defect_def ac_simps)

lemma defect_xor_pieces:
  assumes "c = 0 \<or> c = 1" "0 \<le> p" "p \<le> 5"
  shows "defect z (xor_pieces c p w b) = defect z b XOR bb_hash (zobristPieces z c p) w"
  using piece_hash_xor [OF assms, of z "pieces b" w 0]
  by (simp add: defect_def xor_pieces_def ac_simps)

lemma defect_update [simp]: "defect z (update b) = defect z b"
  by (simp add: defect_def)

lemma defect_toggle:
  assumes "c = 0 \<or> c = 1" "0 \<le> p" "p \<le> 5" "0 \<le> sq" "sq < 64"
  shows "defect z (xor_pieces c p (bit_at sq) b) XOR zobristPieces z c p sq = defect z b"
  using assms by (simp add: defect_xor_pieces bb_hash_bit_at ac_simps)

lemma handle_captures_props:
  assumes "opponent = 0 \<or> opponent = 1" "\<forall>p \<in> set ps. 0 \<le> p \<and> p \<le> 5"
    "0 \<le> to_sq m" "to_sq m < 64"
  shows "defect z (handle_captures z opponent m ps b) = defect z b
       \<and> castle (handle_captures z opponent m ps b) = castle b
       \<and> ep (handle_captures z opponent m ps b) = ep b
       \<and> side (handle_captures z opponent m ps b) = side b"
  using assms by (induction ps) (auto simp: defect_toggle)

lemma special_king_props:
  "defect z (special_king z m b) = defect z b
   \<and> castle (special_king z m b) = castle b
   \<and> ep (special_king z m b) = ep b
   \<and> side (special_king z m b) = side b"
  by (simp add: special_king_def castle_rook_def defect_xor_pieces bb_hash_two ac_simps)

lemma special_pawn_props:
  assumes sd: "side b = 0 \<or> side b = 1" and opp: "opponent = 0 \<or> opponent = 1"
    and ok: "move_ok (side b) m" and pw: "piece m = PAWN" and ep: "ep b = - 1"
  shows "defect z (special_pawn z opponent prev_ep m b)
           = defect z b XOR (if ep (special_pawn z opponent prev_ep m b) \<noteq> - 1
                             then zobristEp z (ep (special_pawn z opponent prev_ep m b)) else 0)
       \<and> castle (special_pawn z opponent prev_ep m b) = castle b
       \<and> side (special_pawn z opponent prev_ep m b) = side b"
proof -
  define b1 where "b1 = (if to_sq m = prev_ep then
                (let captured_pawn_sq = (if side b = WHITE then to_sq m - 8 else to_sq m + 8)
                 in xor_hash (zobristPieces z opponent PAWN captured_pawn_sq)
                      (xor_pieces opponent PAWN (bit_at captured_pawn_sq) b))
              else b)"
  define b2 where "b2 = (if \<bar>from_sq m - to_sq m\<bar> = 16 then
                (let b = b1\<lparr>ep := (if side b1 = WHITE then from_sq m + 8 else from_sq m - 8)\<rparr>
                 in xor_hash (zobristEp z (ep b)) b)
              else b1)"
  define b3 where "b3 = (if promo m \<noteq> 0 then
                xor_hash (zobristPieces z (side b2) (promo m) (to_sq m))
                  (xor_hash (zobristPieces z (side b2) PAWN (to_sq m))
                    (xor_pieces (side b2) (promo m) (bit_at (to_sq m))
                      (xor_pieces (side b2) PAWN (bit_at (to_sq m)) b2)))
              else b2)"
  have res: "special_pawn z opponent prev_ep m b = b3"
    by (simp add: special_pawn_def b1_def b2_def b3_def Let_def)
  have cap: "0 \<le> (if side b = WHITE then to_sq m - 8 else to_sq m + 8)"
    "(if side b = WHITE then to_sq m - 8 else to_sq m + 8) < 64"
    using ok pw by (auto simp: move_ok_def split: if_splits)
  have 1: "defect z b1 = defect z b \<and> castle b1 = castle b \<and> side b1 = side b \<and> ep b1 = - 1"
    using opp cap ep by (simp add: b1_def Let_def defect_toggle)
  have epn: "\<bar>from_sq m - to_sq m\<bar> = 16 \<Longrightarrow>
      (if side b = WHITE then from_sq m + 8 else from_sq m - 8) \<noteq> - 1"
    using ok pw by (auto simp: move_ok_def split: if_splits)
  have d_ep: "defect z (b'\<lparr>ep := e\<rparr>) = defect z b'" for b' e
    by (simp add: defect_def)
  have 2: "defect z b2 = defect z b XOR (if ep b2 \<noteq> - 1 then zobristEp z (ep b2) else 0)
        \<and> castle b2 = castle b \<and> side b2 = side b"
    using 1 epn by (simp add: b2_def Let_def d_ep)
  have pr: "0 \<le> promo m" "promo m \<le> 5" "0 \<le> to_sq m" "to_sq m < 64"
    using ok by (auto simp: move_ok_def)
  have 3: "defect z b3 = defect z b2 \<and> castle b3 = castle b2 \<and> side b3 = side b2 \<and> ep b3 = ep b2"
    using sd 2 pr by (simp add: b3_def defect_xor_pieces bb_hash_bit_at ac_simps)
  show ?thesis using 2 3 by (simp add: res)
qed

lemma d_ep: "defect z (b\<lparr>ep := e\<rparr>) = defect z b"
  by (simp add: defect_def)

lemma d_castle: "defect z (b\<lparr>castle := e\<rparr>) = defect z b"
  by (simp add: defect_def)

lemma d_side: "defect z (b\<lparr>side := e\<rparr>) = defect z b"
  by (simp add: defect_def)

lemma mm_hash_piece_props:
  "defect z (mm_hash_piece z m b) = defect z b
       XOR zobristPieces z (side b) (piece m) (from_sq m)
       XOR zobristPieces z (side b) (piece m) (to_sq m)
   \<and> castle (mm_hash_piece z m b) = castle b \<and> ep (mm_hash_piece z m b) = ep b
   \<and> side (mm_hash_piece z m b) = side b"
  by (simp add: mm_hash_piece_def ac_simps)

lemma mm_hash_ep_props:
  "defect z (mm_hash_ep z b) = defect z b XOR (if ep b \<noteq> - 1 then zobristEp z (ep b) else 0)
   \<and> castle (mm_hash_ep z b) = castle b \<and> side (mm_hash_ep z b) = side b"
  by (simp add: mm_hash_ep_def)

lemma mm_castle_props:
  "defect z (mm_castle z m b) = defect z b XOR zobristCastle z (castle b)
        XOR zobristCastle z (castle (mm_castle z m b))
   \<and> side (mm_castle z m b) = side b"
  by (simp add: mm_castle_def Let_def d_castle ac_simps)

lemma mm_move_piece_props:
  assumes "side b = 0 \<or> side b = 1" "move_ok sd m"
  shows "defect z (mm_move_piece m b) = defect z b
       XOR zobristPieces z (side b) (piece m) (from_sq m)
       XOR zobristPieces z (side b) (piece m) (to_sq m)
   \<and> castle (mm_move_piece m b) = castle b \<and> ep (mm_move_piece m b) = - 1
   \<and> side (mm_move_piece m b) = side b"
proof -
  have mo: "0 \<le> from_sq m" "from_sq m < 64" "0 \<le> to_sq m" "to_sq m < 64"
    "from_sq m \<noteq> to_sq m" "0 \<le> piece m" "piece m \<le> 5"
    using assms(2) by (auto simp: move_ok_def)
  show ?thesis
    using assms(1) mo
    by (simp add: mm_move_piece_def Let_def defect_xor_pieces bb_hash_two d_ep ac_simps)
qed

lemma mm_special_props:
  assumes sd: "side b = 0 \<or> side b = 1" and opp: "opponent = 0 \<or> opponent = 1"
    and ok: "move_ok (side b) m" and ep: "ep b = - 1"
  shows "defect z (mm_special z opponent prev_ep m b)
           = defect z b XOR (if ep (mm_special z opponent prev_ep m b) \<noteq> - 1
                             then zobristEp z (ep (mm_special z opponent prev_ep m b)) else 0)
       \<and> castle (mm_special z opponent prev_ep m b) = castle b
       \<and> side (mm_special z opponent prev_ep m b) = side b"
proof (cases "piece m = PAWN")
  case True
  from special_pawn_props [OF sd opp ok True ep, of z prev_ep] True
  show ?thesis by (simp add: mm_special_def)
next
  case False
  then show ?thesis using ep special_king_props [of z m b] by (simp add: mm_special_def)
qed

lemma mm_finish_props:
  "defect z (mm_finish z opponent b) = defect z b XOR zobristSide z
   \<and> castle (mm_finish z opponent b) = castle b \<and> ep (mm_finish z opponent b) = ep b
   \<and> side (mm_finish z opponent b) = opponent"
  by (simp add: mm_finish_def d_side)

lemma xor_cancel_lemma: "(a :: U64) XOR x XOR y XOR x XOR y = a"
  by (simp add: ac_simps)

lemma makeMove_coherent:
  assumes sd: "side b0 = 0 \<or> side b0 = 1" and ok: "move_ok (side b0) m"
    and coh: "hash b0 = zobristHash z b0"
  shows "hash (makeMove z b0 m) = zobristHash z (makeMove z b0 m)
       \<and> side (makeMove z b0 m) = 1 - side b0"
proof -
  define opponent where "opponent = 1 - side b0"
  define b1 where "b1 = mm_hash_piece z m b0"
  define b2 where "b2 = mm_hash_ep z b1"
  define b3 where "b3 = mm_castle z m b2"
  define b4 where "b4 = mm_move_piece m b3"
  define b5 where "b5 = handle_captures z opponent m [PAWN..KING] b4"
  define b6 where "b6 = mm_special z opponent (ep b0) m b5"
  define b7 where "b7 = mm_finish z opponent b6"
  have res: "makeMove z b0 m = b7"
    by (simp only: makeMove_def Let_def b1_def b2_def b3_def b4_def b5_def b6_def b7_def
        opponent_def)
  have opp: "opponent = 0 \<or> opponent = 1" using sd by (auto simp: opponent_def)
  have mo: "0 \<le> to_sq m" "to_sq m < 64" using ok by (auto simp: move_ok_def)
  let ?Zf = "zobristPieces z (side b0) (piece m) (from_sq m)"
  let ?Zt = "zobristPieces z (side b0) (piece m) (to_sq m)"
  let ?S = "(if side b0 = BLACK then zobristSide z else 0)"
  let ?E = "(if ep b0 \<noteq> - 1 then zobristEp z (ep b0) else 0)"
  have d0: "defect z b0 = zobristCastle z (castle b0) XOR ?E XOR ?S"
    using coh by (simp add: coherent_iff aux_key_def)
  have 1: "defect z b1 = zobristCastle z (castle b0) XOR ?E XOR ?S XOR ?Zf XOR ?Zt
           \<and> side b1 = side b0 \<and> ep b1 = ep b0 \<and> castle b1 = castle b0"
    using mm_hash_piece_props [of z m b0] by (simp add: b1_def d0 ac_simps)
  have 2: "defect z b2 = zobristCastle z (castle b0) XOR ?S XOR ?Zf XOR ?Zt
           \<and> side b2 = side b0 \<and> castle b2 = castle b0"
    using mm_hash_ep_props [of z b1] 1 by (simp add: b2_def ac_simps)
  have 3: "defect z b3 = zobristCastle z (castle b3) XOR ?S XOR ?Zf XOR ?Zt \<and> side b3 = side b0"
    using mm_castle_props [of z m b2] 2 by (simp add: b3_def ac_simps)
  have sd3: "side b3 = 0 \<or> side b3 = 1" using sd 3 by simp
  have "defect z b4 = (zobristCastle z (castle b3) XOR ?S) XOR ?Zf XOR ?Zt XOR ?Zf XOR ?Zt
      \<and> castle b4 = castle b3 \<and> ep b4 = - 1 \<and> side b4 = side b0"
    using mm_move_piece_props [OF sd3 ok, of z] 3 by (simp add: b4_def ac_simps)
  then have 4: "defect z b4 = zobristCastle z (castle b4) XOR ?S \<and> ep b4 = - 1 \<and> side b4 = side b0"
    by (simp only: xor_cancel_lemma)
  have hc: "\<forall>p \<in> set [PAWN..KING]. 0 \<le> p \<and> p \<le> 5" by simp
  have 5: "defect z b5 = zobristCastle z (castle b5) XOR ?S \<and> ep b5 = - 1 \<and> side b5 = side b0"
    using handle_captures_props [OF opp hc mo, of z b4] 4 by (simp add: b5_def)
  have ok5: "move_ok (side b5) m" using ok 5 by simp
  have sd5: "side b5 = 0 \<or> side b5 = 1" using sd 5 by simp
  have e5: "ep b5 = - 1" using 5 by simp
  have 6: "defect z b6 = zobristCastle z (castle b6) XOR ?S
              XOR (if ep b6 \<noteq> - 1 then zobristEp z (ep b6) else 0) \<and> side b6 = side b0"
    using mm_special_props [OF sd5 opp ok5 e5, of z "ep b0"] 5 by (simp add: b6_def ac_simps)
  have 7: "defect z b7 = zobristCastle z (castle b7) XOR ?S XOR zobristSide z
              XOR (if ep b7 \<noteq> - 1 then zobristEp z (ep b7) else 0) \<and> side b7 = opponent"
    using mm_finish_props [of z opponent b6] 6 by (simp add: b7_def ac_simps)
  have "defect z b7 = aux_key z b7"
    using 7 sd by (auto simp: aux_key_def opponent_def ac_simps)
  then show ?thesis using 7 by (simp add: coherent_iff res opponent_def)
qed

lemma makeMove_side: "side (makeMove z b m) = 1 - side b"
  by (simp add: makeMove_def Let_def mm_finish_def xor_hash_def)

section \<open>Generated moves are well formed\<close>

text \<open>
  No attack set contains the square it is computed for, so a generated move never has
  \<open>from = to\<close>; pawn moves go forward and never reach the mover's own first rank.
\<close>

lemma bit_cond_or:
  "bit (if c then km OR bit_at s else km) t \<longleftrightarrow> bit km t \<or> (c \<and> t = nat s \<and> nat s < 64)"
  by (auto simp: bit_or_iff bit_bit_at)

lemma KingMoves_not_self:
  assumes "0 \<le> sq" "sq < 64"
  shows "\<not> bit (KingMoves sq) (nat sq)"
proof -
  define x y where "x = sq mod 8" and "y = sq div 8"
  have sq: "sq = y * 8 + x" "0 \<le> x" "x < 8" "0 \<le> y" "y < 8"
    using assms by (auto simp: x_def y_def)
  have "\<not> bit (fold (\<lambda>dx km.
          fold (\<lambda>dy km.
            if dx = 0 \<and> dy = 0 then km
            else let nx = x + dx; ny = y + dy
                 in if nx \<ge> 0 \<and> nx < 8 \<and> ny \<ge> 0 \<and> ny < 8
                    then km OR bit_at (ny * 8 + nx) else km)
            [- 1..1] km)
          [- 1..1] (0::U64)) (nat (y * 8 + x))"
    using sq(2-5) by (simp add: upto.simps Let_def bit_cond_or) (intro conjI impI; linarith)
  then show ?thesis
    unfolding KingMoves_def Let_def x_def [symmetric] y_def [symmetric] sq(1) [symmetric] by (simp add: Let_def)
qed

lemma KnightMoves_not_self:
  assumes "0 \<le> sq" "sq < 64"
  shows "\<not> bit (KnightMoves sq) (nat sq)"
proof -
  define x y where "x = sq mod 8" and "y = sq div 8"
  have sq: "sq = y * 8 + x" "0 \<le> x" "x < 8" "0 \<le> y" "y < 8"
    using assms by (auto simp: x_def y_def)
  have l: "[0..<8] = [0, 1, 2, 3, 4, 5, 6, 7]" by (simp add: upt_rec)
  have "\<not> bit (fold (\<lambda>i km.
          let nx = x + kdx ! i; ny = y + kdy ! i
          in if nx \<ge> 0 \<and> nx < 8 \<and> ny \<ge> 0 \<and> ny < 8
             then km OR bit_at (ny * 8 + nx) else km)
          [0..<8] (0::U64)) (nat (y * 8 + x))"
    using sq(2-5) by (simp add: l kdx_def kdy_def Let_def bit_cond_or) (intro conjI impI; linarith)
  then show ?thesis
    unfolding KnightMoves_def Let_def x_def [symmetric] y_def [symmetric] sq(1) [symmetric]
    by (simp add: Let_def)
qed

lemma ray_unfold:
  "ray r f dr df bl a =
    (if loop_cond r f dr df
     then let attacks' = a OR bit_at (r * 8 + f)
          in if bit_at (r * 8 + f) AND bl \<noteq> 0 then attacks'
             else ray (r + dr) (f + df) dr df bl attacks'
     else a)"
  unfolding loop_cond_def by (rule ray.simps)

lemma ray_bits:
  "bit (ray r f dr df bl a) t \<Longrightarrow>
   bit a t \<or> (\<exists>k\<ge>0. t = nat ((r + k * dr) * 8 + (f + k * df)) \<and> loop_cond (r + k * dr) (f + k * df) dr df)"
proof (induction r f dr df bl a rule: ray.induct)
  case (1 r f dr df blockers attacks)
  show ?case
  proof (cases "loop_cond r f dr df")
    case False
    then have "ray r f dr df blockers attacks = attacks"
      by (subst ray_unfold) simp
    with 1 show ?thesis by simp
  next
    case True
    let ?a = "attacks OR bit_at (r * 8 + f)"
    have here: "bit ?a t \<Longrightarrow> bit attacks t \<or> t = nat ((r + 0 * dr) * 8 + (f + 0 * df))"
      by (auto simp: bit_or_iff bit_bit_at)
    show ?thesis
    proof (cases "bit_at (r * 8 + f) AND blockers \<noteq> 0")
      case blocked: True
      then have "ray r f dr df blockers attacks = ?a"
        using True by (subst ray_unfold) (simp add: Let_def)
      with 1(2) have "bit ?a t" by simp
      from here [OF this] True show ?thesis
        by (elim disjE) (simp, intro disjI2 exI [of _ 0], simp)
    next
      case free: False
      then have eq: "ray r f dr df blockers attacks = ray (r + dr) (f + df) dr df blockers ?a"
        using True by (subst ray_unfold) (simp add: Let_def)
      have c: "(dr \<noteq> 0 \<or> df \<noteq> 0) \<and> (0 < dr \<longrightarrow> r \<le> 7) \<and> (dr < 0 \<longrightarrow> 0 \<le> r) \<and>
               (0 < df \<longrightarrow> f \<le> 7) \<and> (df < 0 \<longrightarrow> 0 \<le> f)"
        using True by (simp add: loop_cond_def)
      have f': "\<not> bit_at (r * 8 + f) AND blockers \<noteq> 0" using free by simp
      from 1(2) have "bit (ray (r + dr) (f + df) dr df blockers ?a) t" by (simp add: eq)
      from 1(1) [OF c refl f' this]
      consider "bit ?a t"
        | k where "k \<ge> 0" "t = nat ((r + dr + k * dr) * 8 + (f + df + k * df))"
            "loop_cond (r + dr + k * dr) (f + df + k * df) dr df"
        by blast
      then show ?thesis
      proof cases
        case 1
        from here [OF this] True show ?thesis
          by (elim disjE) (simp, intro disjI2 exI [of _ 0], simp)
      next
        case 2
        have "r + dr + k * dr = r + (k + 1) * dr" "f + df + k * df = f + (k + 1) * df"
          by (simp_all add: algebra_simps)
        with 2 have "k + 1 \<ge> 0 \<and> t = nat ((r + (k + 1) * dr) * 8 + (f + (k + 1) * df))
            \<and> loop_cond (r + (k + 1) * dr) (f + (k + 1) * df) dr df" by simp
        then show ?thesis by blast
      qed
    qed
  qed
qed

lemma rook_not_self:
  assumes "0 \<le> sq" "sq < 64"
  shows "\<not> bit (get_rook_attacks sq bl) (nat sq)"
proof
  define x y where "x = sq mod 8" and "y = sq div 8"
  have sq: "sq = y * 8 + x" "0 \<le> x" "x < 8" "0 \<le> y" "y < 8"
    using assms by (auto simp: x_def y_def)
  define a1 where "a1 = ray (y + 1) x 1 0 bl 0"
  define a2 where "a2 = ray (y - 1) x (- 1) 0 bl a1"
  define a3 where "a3 = ray y (x + 1) 0 1 bl a2"
  define a4 where "a4 = ray y (x - 1) 0 (- 1) bl a3"
  assume "bit (get_rook_attacks sq bl) (nat sq)"
  then have b4: "bit a4 (nat sq)"
    by (simp add: get_rook_attacks_def Let_def a4_def a3_def a2_def a1_def x_def y_def)
  have n1: "\<not> bit a1 (nat sq)"
    using ray_bits [of "y + 1" x 1 0 bl 0 "nat sq"] sq unfolding a1_def
    by (auto simp: loop_cond_def)
  have n2: "\<not> bit a2 (nat sq)"
    using ray_bits [of "y - 1" x "- 1" 0 bl a1 "nat sq"] sq n1 unfolding a2_def
    by (auto simp: loop_cond_def)
  have n3: "\<not> bit a3 (nat sq)"
    using ray_bits [of y "x + 1" 0 1 bl a2 "nat sq"] sq n2 unfolding a3_def
    by (auto simp: loop_cond_def)
  have n4: "\<not> bit a4 (nat sq)"
    using ray_bits [of y "x - 1" 0 "- 1" bl a3 "nat sq"] sq n3 unfolding a4_def
    by (auto simp: loop_cond_def)
  from b4 n4 show False by simp
qed

lemma bishop_not_self:
  assumes "0 \<le> sq" "sq < 64"
  shows "\<not> bit (get_bishop_attacks sq bl) (nat sq)"
proof
  define x y where "x = sq mod 8" and "y = sq div 8"
  have sq: "sq = y * 8 + x" "0 \<le> x" "x < 8" "0 \<le> y" "y < 8"
    using assms by (auto simp: x_def y_def)
  define a1 where "a1 = ray (y + 1) (x + 1) 1 1 bl 0"
  define a2 where "a2 = ray (y + 1) (x - 1) 1 (- 1) bl a1"
  define a3 where "a3 = ray (y - 1) (x + 1) (- 1) 1 bl a2"
  define a4 where "a4 = ray (y - 1) (x - 1) (- 1) (- 1) bl a3"
  assume "bit (get_bishop_attacks sq bl) (nat sq)"
  then have b4: "bit a4 (nat sq)"
    by (simp add: get_bishop_attacks_def Let_def a4_def a3_def a2_def a1_def x_def y_def)
  have n1: "\<not> bit a1 (nat sq)"
    using ray_bits [of "y + 1" "x + 1" 1 1 bl 0 "nat sq"] sq unfolding a1_def
    by (auto simp: loop_cond_def)
  have n2: "\<not> bit a2 (nat sq)"
    using ray_bits [of "y + 1" "x - 1" 1 "- 1" bl a1 "nat sq"] sq n1 unfolding a2_def
    by (auto simp: loop_cond_def)
  have n3: "\<not> bit a3 (nat sq)"
    using ray_bits [of "y - 1" "x + 1" "- 1" 1 bl a2 "nat sq"] sq n2 unfolding a3_def
    by (auto simp: loop_cond_def)
  have n4: "\<not> bit a4 (nat sq)"
    using ray_bits [of "y - 1" "x - 1" "- 1" "- 1" bl a3 "nat sq"] sq n3 unfolding a4_def
    by (auto simp: loop_cond_def)
  from b4 n4 show False by simp
qed

lemma squares_of_bit: "sq \<in> set (squares_of w) \<Longrightarrow> bit w (nat sq)"
  by (auto simp: squares_of_filter)

lemma gen_attacks_not_self:
  assumes "0 \<le> from" "from < 64"
  shows "\<not> bit (gen_attacks b co p from) (nat from)"
  using KingMoves_not_self [OF assms] KnightMoves_not_self [OF assms]
    rook_not_self [OF assms, of "all b"] bishop_not_self [OF assms, of "all b"]
  by (simp add: gen_attacks_def Let_def bit_and_iff bit_or_iff)

lemma pawn_target_ok:
  assumes fr: "0 \<le> fr" "fr < 64"
    and d: "d = dir - 1 \<or> d = dir + 1" and dir: "dir = (if sd = WHITE then 8 else - 8)"
    and ok: "\<not> (fr + d < 0 \<or> fr + d > 63 \<or> \<bar>fr mod 8 - (fr + d) mod 8\<bar> > 1)"
  shows "move_ok sd (mk_Move fr (fr + d) PAWN c pr) \<longleftrightarrow> 0 \<le> pr \<and> pr \<le> 5"
proof -
  have w: "sd = WHITE \<Longrightarrow> d = 7 \<Longrightarrow> 1 \<le> fr"
  proof (rule ccontr)
    assume "sd = WHITE" "d = 7" "\<not> 1 \<le> fr"
    with fr have "fr = 0" by simp
    with ok \<open>d = 7\<close> show False by simp
  qed
  have bl: "sd \<noteq> WHITE \<Longrightarrow> d = - 7 \<Longrightarrow> fr \<le> 62"
  proof (rule ccontr)
    assume "sd \<noteq> WHITE" "d = - 7" "\<not> fr \<le> 62"
    with fr have "fr = 63" by simp
    with ok \<open>d = - 7\<close> show False by simp
  qed
  from d dir have "sd = WHITE \<and> (d = 7 \<or> d = 9) \<or> sd \<noteq> WHITE \<and> (d = - 9 \<or> d = - 7)"
    by (auto split: if_splits)
  then show ?thesis
    using fr ok w bl by (auto simp: move_ok_def mk_Move_def)
qed

lemma gen_pawn_ok:
  assumes fr: "0 \<le> fr" "fr < 64" and m: "m \<in> set (gen_pawn b co fr)"
  shows "move_ok (side b) m"
proof -
  define dir :: int where "dir = (if side b = WHITE then 8 else - 8)"
  define promo_rank :: int where "promo_rank = (if side b = WHITE then 7 else 0)"
  define pushes where "pushes =
           (if \<not> co then
              (let to_sq = fr + dir
               in if to_sq \<ge> 0 \<and> to_sq < 64 \<and> all b AND bit_at to_sq = 0 then
                    (if to_sq div 8 = promo_rank then [mk_Move fr to_sq PAWN (- 1) QUEEN]
                     else Move3 fr to_sq PAWN #
                       (let start_rank = (if side b = WHITE then 1 else 6)
                        in if fr div 8 = start_rank then
                             (let to_sq2 = fr + 2 * dir
                              in if all b AND bit_at to_sq2 = 0
                                 then [Move3 fr to_sq2 PAWN] else [])
                           else []))
                  else [])
            else [])"
  define cap where "cap = (\<lambda>d.
                  let to = fr + d
                  in if to < 0 \<or> to > 63 \<or> \<bar>fr mod 8 - to mod 8\<bar> > 1 then []
                     else if occupied b (1 - side b) AND bit_at to \<noteq> 0 then
                       (if to div 8 = promo_rank then [mk_Move fr to PAWN 0 QUEEN]
                        else [Move3 fr to PAWN])
                     else if \<not> co \<and> to = ep b then [Move3 fr to PAWN]
                     else [])"
  have g: "gen_pawn b co fr = pushes @ concat (map cap [dir - 1, dir + 1])"
    by (simp only: gen_pawn_def Let_def pushes_def cap_def dir_def promo_rank_def)
  from m g consider "m \<in> set pushes" | d where "d = dir - 1 \<or> d = dir + 1" "m \<in> set (cap d)"
    by auto
  then show ?thesis
  proof cases
    case 1
    show ?thesis
    proof (cases "side b = WHITE")
      case True
      with 1 fr show ?thesis
        by (auto simp: pushes_def dir_def promo_rank_def Let_def move_ok_def mk_Move_def
            split: if_splits)
    next
      case False
      with 1 fr show ?thesis
        by (auto simp: pushes_def dir_def promo_rank_def Let_def move_ok_def mk_Move_def
            split: if_splits)
    qed
  next
    case 2
    from 2(2) have ok: "\<not> (fr + d < 0 \<or> fr + d > 63 \<or> \<bar>fr mod 8 - (fr + d) mod 8\<bar> > 1)"
      by (auto simp: cap_def Let_def split: if_splits)
    from 2(2) ok obtain c pr where "m = mk_Move fr (fr + d) PAWN c pr" "pr = 0 \<or> pr = 4"
      by (auto simp: cap_def Let_def split: if_splits)
    with pawn_target_ok [OF fr 2(1) dir_def ok, of c pr] show ?thesis by auto
  qed
qed

lemma gen_castling_ok: "m \<in> set (gen_castling b) \<Longrightarrow> move_ok (side b) m"
  by (auto simp: gen_castling_def move_ok_def mk_Move_def split: if_splits)

lemma gen_piece_ok:
  assumes "0 \<le> from" "from < 64" "0 \<le> p" "p \<le> 5" "m \<in> set (gen_piece b co p from)"
  shows "move_ok (side b) m"
proof (cases "p = PAWN")
  case True
  with assms show ?thesis by (simp add: gen_piece_def gen_pawn_ok)
next
  case False
  from assms(5) False consider "m \<in> set (gen_castling b)"
    | t where "t \<in> set (squares_of (gen_attacks b co p from))" "m = Move3 from t p"
    by (auto simp: gen_piece_def split: if_splits)
  then show ?thesis
  proof cases
    case 1
    then show ?thesis by (rule gen_castling_ok)
  next
    case 2
    from 2(1) have r: "0 \<le> t" "t < 64" using squares_of_range by auto
    from 2(1) have "bit (gen_attacks b co p from) (nat t)" by (rule squares_of_bit)
    with gen_attacks_not_self [OF assms(1,2), of b co p] have "t \<noteq> from" by auto
    with r assms False 2(2) show ?thesis by (simp add: move_ok_def mk_Move_def)
  qed
qed

lemma pseudoMoves_ok:
  assumes "m \<in> set (pseudoMoves b co)"
  shows "move_ok (side b) m"
proof -
  from assms obtain p fr where p: "p \<in> set [PAWN..KING]"
    and f: "fr \<in> set (squares_of (pieces b (side b) p))"
    and m: "m \<in> set (gen_piece b co p fr)"
    by (auto simp: pseudoMoves_def)
  from f have "0 \<le> fr" "fr < 64" using squares_of_range by auto
  moreover from p have "0 \<le> p" "p \<le> 5" by auto
  ultimately show ?thesis using m by (rule gen_piece_ok)
qed

lemma generateMoves_ok: "m \<in> set (generateMoves z b co) \<Longrightarrow> move_ok (side b) m"
  by (auto simp: generateMoves_def pseudoMoves_ok)

lemma zobristHash_hash_irrelevant [simp]: "zobristHash z (b\<lparr>hash := h\<rparr>) = zobristHash z b"
  by (simp add: zobristHash_def Let_def)

lemma init_coherent: "hash (init z) = zobristHash z (init z) \<and> side (init z) = WHITE"
  by (simp add: init_def Let_def)

lemma reachable_invariant:
  "reachable z b \<Longrightarrow> hash b = zobristHash z b \<and> (side b = WHITE \<or> side b = BLACK)"
proof (induction rule: reachable.induct)
  case start
  then show ?case using init_coherent [of z] by simp
next
  case (step b m capturesOnly)
  from step.hyps(2) have ok: "move_ok (side b) m" by (rule generateMoves_ok)
  from step.IH have sd: "side b = 0 \<or> side b = 1" and coh: "hash b = zobristHash z b" by auto
  from makeMove_coherent [OF sd ok coh] sd show ?case by auto
qed

section \<open>Null move, move ordering, history and probe\<close>

lemma null_flip_fields:
  "pieces (null_flip z b) = pieces b" "castle (null_flip z b) = castle b"
  "ep (null_flip z b) = - 1" "side (null_flip z b) = 1 - side b"
  "hash (null_flip z b) = hash b XOR zobristSide z"
  by (simp_all add: null_flip_def Let_def)

lemma null_flip_hash:
  assumes coh: "hash b = zobristHash z b" and sd: "side b = WHITE \<or> side b = BLACK"
  shows "hash (null_flip z b)
       = zobristHash z (null_flip z b) XOR (if ep b \<noteq> - 1 then zobristEp z (ep b) else 0)"
proof -
  have "hash b = piece_hash z (pieces b) 0 XOR zobristCastle z (castle b)
      XOR (if ep b \<noteq> - 1 then zobristEp z (ep b) else 0)
      XOR (if side b = BLACK then zobristSide z else 0)"
    using coh by (simp add: zobristHash_def Let_def ac_simps)
  moreover have "zobristHash z (null_flip z b) = piece_hash z (pieces b) 0
      XOR zobristCastle z (castle b) XOR (if 1 - side b = BLACK then zobristSide z else 0)"
    by (simp add: zobristHash_def Let_def null_flip_fields ac_simps)
  ultimately show ?thesis
    using sd by (auto simp: null_flip_fields ac_simps)
qed

lemma mvv_lva_found:
  assumes "v \<in> set ps" "pieces b (1 - side b) v AND bit_at (to_sq m) \<noteq> 0"
    "\<forall>p \<in> set (takeWhile (\<lambda>p. p \<noteq> v) ps). pieces b (1 - side b) p AND bit_at (to_sq m) = 0"
  shows "mvv_lva b ps m = m\<lparr>score := 100000 + victimValues ! nat v * 10 - victimValues ! nat (piece m)\<rparr>"
  using assms by (induction ps) auto

lemma scoreMove_quiet:
  assumes "\<not> tt_match ttMove m" "occupied b (1 - side b) AND bit_at (to_sq m) = 0"
  shows "score (scoreMove b ttMove ply st a m) =
      (if isKiller (killerMoves st) a ply then 90000
       else history_get (historyTable st) (side b) (from_sq m) (to_sq m)) + promo_bonus m"
  using assms by (auto simp: scoreMove_def tt_match_def promo_bonus_def Let_def)

lemma scoreMove_capture:
  assumes "\<not> tt_match ttMove m" "occupied b (1 - side b) AND bit_at (to_sq m) \<noteq> 0"
    and v: "0 \<le> v" "v \<le> 5" "pieces b (1 - side b) v AND bit_at (to_sq m) \<noteq> 0"
    and hi: "\<forall>p. v < p \<and> p \<le> 5 \<longrightarrow> pieces b (1 - side b) p AND bit_at (to_sq m) = 0"
  shows "score (scoreMove b ttMove ply st a m) =
      100000 + 10 * victimValues ! nat v - victimValues ! nat (piece m) + promo_bonus m"
proof -
  from v(1,2) have vs: "v \<in> set [KING, QUEEN, ROOK, BISHOP, KNIGHT, PAWN]" by auto
  have tw: "\<forall>p \<in> set (takeWhile (\<lambda>p. p \<noteq> v) [KING, QUEEN, ROOK, BISHOP, KNIGHT, PAWN]).
              pieces b (1 - side b) p AND bit_at (to_sq m) = 0"
  proof
    fix p assume "p \<in> set (takeWhile (\<lambda>p. p \<noteq> v) [KING, QUEEN, ROOK, BISHOP, KNIGHT, PAWN])"
    then have "v < p \<and> p \<le> 5" using v(1,2) by (auto split: if_splits)
    with hi show "pieces b (1 - side b) p AND bit_at (to_sq m) = 0" by simp
  qed
  have "mvv_lva b [KING, QUEEN, ROOK, BISHOP, KNIGHT, PAWN] m
      = m\<lparr>score := 100000 + victimValues ! nat v * 10 - victimValues ! nat (piece m)\<rparr>"
    by (rule mvv_lva_found [OF vs v(3) tw])
  then show ?thesis
    using assms(1,2) by (simp add: scoreMove_def tt_match_def promo_bonus_def Let_def)
qed

lemma scored_nth:
  "i < length moves \<Longrightarrow>
   scored moves base b ttMove ply st ! i = scoreMove b ttMove ply st (elem_addr base i) (moves ! i)"
  by (simp add: scored_def nth_enumerate_eq)

lemma scoreMoves_set:
  "set (scoreMoves moves base b ttMove ply st) = set (scored moves base b ttMove ply st)"
  by (simp add: scoreMoves_def)

lemma after_move_history:
  "historyTable (l_state (fst (after_move b m a sc depth beta inCheck ply moveCount L))) =
     (if sc > l_alpha L \<and> occupied b (1 - side b) AND bit_at (to_sq m) = 0
      then history_update (historyTable (l_state L)) (side b) (from_sq m) (to_sq m) depth
      else historyTable (l_state L))"
  by (simp add: after_move_def Let_def)

lemma history_update_plain:
  assumes "h sd fr t + d * d \<le> 100000"
  shows "history_update h sd fr t d = h(sd := (h sd)(fr := (h sd fr)(t := h sd fr t + d * d)))"
  using assms by (simp add: history_update_def Let_def)

lemma history_update_aging:
  assumes "h sd fr t + d * d > 100000"
    and "0 \<le> s" "s < 2" "0 \<le> f" "f < 64" "0 \<le> t'" "t' < 64"
  shows "history_update h sd fr t d s f t'
       = cdiv ((h(sd := (h sd)(fr := (h sd fr)(t := h sd fr t + d * d)))) s f t') 2"
  using assms by (simp add: history_update_def Let_def)

lemma search_probe_hit:
  assumes "tt_probe (transpositionTable st (tt_index b)) b
             (if isInCheck b then depth + 1 else depth) alpha beta bestMove ply = Some (s, bm)"
  shows "search z heap (Suc n) b depth alpha beta bestMove ply nullMove st
       = Some (s, bm, st\<lparr>nodes := nodes st + 1\<rparr>)"
  using assms by (simp add: search_body_def Let_def)

lemma killer_update_slots:
  "killer_update killers a ply ply 0 = a"
  "killer_update killers a ply ply 1 = (if killers ply 0 \<noteq> a then killers ply 0 else killers ply 1)"
  by (simp_all add: killer_update_def)

section \<open>Facts about the concrete positions\<close>

text \<open>
  \<open>update\<close> written out, for evaluation: the loop over the kinds is unrolled.
\<close>

lemma update_code [code]:
  "update b = b\<lparr>occupied := (occupied b)(WHITE := pieces b 0 0 OR pieces b 0 1 OR pieces b 0 2 OR pieces b 0 3 OR pieces b 0 4 OR pieces b 0 5,
        BLACK := pieces b 1 0 OR pieces b 1 1 OR pieces b 1 2 OR pieces b 1 3 OR pieces b 1 4 OR pieces b 1 5),
      all := pieces b 0 0 OR pieces b 0 1 OR pieces b 0 2 OR pieces b 0 3 OR pieces b 0 4 OR pieces b 0 5 OR
         pieces b 1 0 OR pieces b 1 1 OR pieces b 1 2 OR pieces b 1 3 OR pieces b 1 4 OR pieces b 1 5\<rparr>"
  by (simp add: update_def Let_def upto.simps ac_simps)

lemma e2e4_pseudo: "e2e4 \<in> set (pseudoMoves (init z0) False)"
  by code_simp

lemma e2e4_legal: "isLegalMove z0 (init z0) e2e4"
  by code_simp

lemma e2e4_generated: "e2e4 \<in> set (generateMoves z0 (init z0) False)"
  by (simp add: generateMoves_def e2e4_pseudo e2e4_legal)

lemma after_e2e4_ep: "ep after_e2e4 = 20"
  by code_simp

lemma z0_ep_key: "zobristEp z0 20 \<noteq> 0"
  by code_simp

lemma init_black_occ: "occupied (init z0) 1 AND bit_at 16 = 0"
  by code_simp

lemma ep_board_facts:
  "side ep_board = WHITE" "ep ep_board = 43" "occupied ep_board 1 AND bit_at 43 = 0"
  "pieces ep_board 1 PAWN AND bit_at 35 \<noteq> 0"
  by (simp_all add: ep_board_def bit_at_def)

lemma init_pieces:
  "pieces (init z) = (\<lambda>c p. 0)
     (WHITE := (\<lambda>p. 0)(PAWN := 0xFF00, KNIGHT := 0x42, BISHOP := 0x24,
                                  ROOK := 0x81, QUEEN := 0x8, KING := 0x10),
      BLACK := (\<lambda>p. 0)(PAWN := 0xFF000000000000, KNIGHT := 0x4200000000000000,
                                  BISHOP := 0x2400000000000000, ROOK := 0x8100000000000000,
                                  QUEEN := 0x800000000000000, KING := 0x1000000000000000))"
  by (simp add: init_def Let_def)

lemma init_disjoint: "disjoint_bitboards (init z)"
  unfolding disjoint_bitboards_def init_pieces by auto

lemma after_e2e4_reachable: "reachable z0 after_e2e4"
  unfolding after_e2e4_def by (rule reachable.step [OF reachable.start e2e4_generated])

lemma b2b3_quiet: "occupied (init z0) (1 - side (init z0)) AND bit_at (to_sq b2b3) = 0"
proof -
  have "occupied (init z0) 1 AND bit_at 17 = 0" by code_simp
  then show ?thesis using init_coherent [of z0] by (simp add: b2b3_def mk_Move_def)
qed

lemma a2a3_quiet: "occupied (init z0) (1 - side (init z0)) AND bit_at (to_sq a2a3) = 0"
  using init_black_occ init_coherent [of z0] by (simp add: a2a3_def mk_Move_def)

lemma ep_board_played:
  "side played = side ep_board"
  "ep played = ep ep_board"
  "castle played = castle ep_board"
  "all played = all ep_board"
  "occupied played WHITE = occupied ep_board WHITE"
  "occupied played BLACK = occupied ep_board BLACK"
  "pieces played WHITE PAWN = pieces ep_board WHITE PAWN"
  "pieces played WHITE KNIGHT = pieces ep_board WHITE KNIGHT"
  "pieces played WHITE BISHOP = pieces ep_board WHITE BISHOP"
  "pieces played WHITE ROOK = pieces ep_board WHITE ROOK"
  "pieces played WHITE QUEEN = pieces ep_board WHITE QUEEN"
  "pieces played WHITE KING = pieces ep_board WHITE KING"
  "pieces played BLACK PAWN = pieces ep_board BLACK PAWN"
  "pieces played BLACK KNIGHT = pieces ep_board BLACK KNIGHT"
  "pieces played BLACK BISHOP = pieces ep_board BLACK BISHOP"
  "pieces played BLACK ROOK = pieces ep_board BLACK ROOK"
  "pieces played BLACK QUEEN = pieces ep_board BLACK QUEEN"
  "pieces played BLACK KING = pieces ep_board BLACK KING"
  by code_simp+

lemma exd6_pseudo: "exd6 \<in> set (pseudoMoves ep_board False)"
  by code_simp

lemma exd6_legal: "isLegalMove z0 ep_board exd6"
  by code_simp

lemma exd6_generated: "exd6 \<in> set (generateMoves z0 ep_board False)"
  by (simp add: generateMoves_def exd6_pseudo exd6_legal)

lemma ep_board_bishop_victim: "victim_kind ep_board bxa6 PAWN"
  by (auto simp: victim_kind_def ep_board_def bxa6_def mk_Move_def bit_at_def)

section \<open>The claims\<close>

subsection \<open>C1: hash coherence\<close>

text \<open>
  C1. For every position reachable from the start position by applying moves returned
  by the legal move generator with \<^verbatim>\<open>makeMove\<close>, the incrementally maintained \<open>hash\<close>
  field equals the Zobrist hash recomputed from scratch over the position's pieces,
  castling rights, en-passant square and side. This holds for every table of keys.
\<close>

theorem hash_coherence: "reachable z b \<Longrightarrow> hash b = zobristHash z b"
  by (simp add: reachable_invariant)

text \<open>The position after e2-e4 is reachable, and its hash is coherent.\<close>

theorem hash_coherence_witness:
  "reachable z0 after_e2e4 \<and> hash after_e2e4 = zobristHash z0 after_e2e4"
  using hash_coherence [OF after_e2e4_reachable] after_e2e4_reachable by simp

subsection \<open>C2: legality of generated moves\<close>

text \<open>
  C2. For every position and in either mode, the moves returned by \<^verbatim>\<open>generateMoves\<close>
  are exactly the pseudo-legal moves after which, played with \<^verbatim>\<open>makeMove\<close> on a copy,
  the moving side still has a king and that king is not attacked by the opponent. So
  every returned move leaves the mover's king present and unattacked, and every
  pseudo-legal move that leaves it absent or attacked is filtered out.
\<close>

theorem generate_legal:
  "m \<in> set (generateMoves z b capturesOnly) \<longleftrightarrow>
     m \<in> set (pseudoMoves b capturesOnly)
     \<and> pieces (makeMove z b m) (side b) KING \<noteq> 0
     \<and> \<not> is_attacked (ctzll (pieces (makeMove z b m) (side b) KING)) (1 - side b)
           (makeMove z b m)"
  by (auto simp: generateMoves_def isLegalMove_def Let_def makeMove_side)

text \<open>The move e2-e4 in the start position.\<close>

theorem generate_legal_witness:
  "e2e4 \<in> set (generateMoves z0 (init z0) False)
   \<and> pieces (makeMove z0 (init z0) e2e4) (side (init z0)) KING \<noteq> 0
   \<and> \<not> is_attacked (ctzll (pieces (makeMove z0 (init z0) e2e4) (side (init z0)) KING))
         (1 - side (init z0)) (makeMove z0 (init z0) e2e4)"
  using generate_legal [of e2e4 z0 "init z0" False] e2e4_generated by simp

subsection \<open>C4: the hash after a null move\<close>

text \<open>
  C4. The null-move flip toggles the side, clears \<open>ep\<close> and flips the side key in the
  hash, but it does not take the en-passant key out (lemma \<open>null_flip_hash\<close>: the
  hash field is the from-scratch hash \<open>XOR\<close> that key). So on a position with a coherent
  hash whose en-passant square is set, and whose en-passant key is not zero, the hash
  field of the flipped position differs from its from-scratch Zobrist hash.
  \<^verbatim>\<open>makeMove\<close> does take the key out when it clears \<open>ep\<close> (line 361).
\<close>

theorem null_flip_hash_stale:
  assumes "hash b = zobristHash z b" "side b = WHITE \<or> side b = BLACK"
    "ep b \<noteq> - 1" "zobristEp z (ep b) \<noteq> 0"
  shows "hash (null_flip z b) \<noteq> zobristHash z (null_flip z b)"
proof
  assume "hash (null_flip z b) = zobristHash z (null_flip z b)"
  with null_flip_hash [OF assms(1,2)] assms(3)
  have "zobristHash z (null_flip z b) = zobristHash z (null_flip z b) XOR zobristEp z (ep b)"
    by simp
  then have "zobristHash z (null_flip z b) XOR zobristHash z (null_flip z b)
      = zobristHash z (null_flip z b) XOR (zobristHash z (null_flip z b) XOR zobristEp z (ep b))"
    by simp
  then have "zobristEp z (ep b) = 0"
    by (simp only: bit.xor_self bit.xor_left_self)
  with assms(4) show False by simp
qed

text \<open>The position after e2-e4, which \<^verbatim>\<open>search\<close> meets at ply 1: its en-passant square
  is e3.\<close>

theorem null_flip_hash_stale_witness:
  "hash after_e2e4 = zobristHash z0 after_e2e4 \<and> side after_e2e4 = BLACK
   \<and> ep after_e2e4 = 20 \<and> zobristEp z0 (ep after_e2e4) \<noteq> 0
   \<and> hash (null_flip z0 after_e2e4) \<noteq> zobristHash z0 (null_flip z0 after_e2e4)"
proof -
  have coh: "hash after_e2e4 = zobristHash z0 after_e2e4"
    using reachable_invariant [OF after_e2e4_reachable] by simp
  have sd: "side after_e2e4 = BLACK"
    using init_coherent [of z0] by (simp add: after_e2e4_def makeMove_side)
  have ep: "ep after_e2e4 \<noteq> - 1" by (simp add: after_e2e4_ep)
  have key: "zobristEp z0 (ep after_e2e4) \<noteq> 0" by (simp add: after_e2e4_ep z0_ep_key)
  from null_flip_hash_stale [OF coh _ ep key] sd coh key show ?thesis
    by (simp add: after_e2e4_ep)
qed

subsection \<open>C5: the score of a killer move\<close>

text \<open>
  C5. The killer table holds addresses of vector elements, and \<^verbatim>\<open>isKiller\<close> compares
  addresses; the fields (from, to, promo) of a move are never compared with those of a
  recorded killer. So the claim fails on the code. After \<^verbatim>\<open>killerMoves.update(a, ply)\<close>,
  move ordering at that ply treats a move that is not the TT move and whose target
  square holds no opponent piece as follows: stored at the address \<open>a\<close>, it receives
  90 000 (plus the promotion bonus), whatever move it is; stored at an address that is
  neither \<open>a\<close> nor one of the two addresses the table held at that ply before, it
  receives its history score (plus the promotion bonus), even when it is equal under
  \<^verbatim>\<open>operator==\<close> to the move that was recorded.
\<close>

theorem killer_recorded_by_address:
  assumes "i < length moves"
    and "\<not> tt_match ttMove (moves ! i)"
    and "occupied b (1 - side b) AND bit_at (to_sq (moves ! i)) = 0"
  shows "(elem_addr base i = a \<longrightarrow>
            score (scored moves base b ttMove ply
                     (st\<lparr>killerMoves := killer_update (killerMoves st) a ply\<rparr>) ! i)
              = 90000 + promo_bonus (moves ! i))
       \<and> (elem_addr base i \<noteq> a \<and> elem_addr base i \<noteq> killerMoves st ply 0
            \<and> elem_addr base i \<noteq> killerMoves st ply 1 \<longrightarrow>
            score (scored moves base b ttMove ply
                     (st\<lparr>killerMoves := killer_update (killerMoves st) a ply\<rparr>) ! i)
              = historyTable st (side b) (from_sq (moves ! i)) (to_sq (moves ! i))
                + promo_bonus (moves ! i))"
  using assms
  by (auto simp: scored_nth scoreMove_quiet isKiller_def killer_update_slots history_get_def)

text \<open>
  The failing inputs. The quiet move a2-a3 is recorded as killer at ply 0 from a vector
  stored at address 4096. The same move in a vector stored at address 8192 receives 0,
  its history score, where the claim says 90 000; the move b2-b3, equal to no recorded
  killer, receives 90 000 in a vector stored at address 4096.
\<close>

theorem killer_recorded_by_address_witness:
  "killer_state = st0\<lparr>killerMoves := killer_update (killerMoves st0) (elem_addr 4096 0) 0\<rparr>
   \<and> move_eq ([a2a3] ! 0) a2a3
   \<and> occupied (init z0) (1 - side (init z0)) AND bit_at (to_sq ([a2a3] ! 0)) = 0
   \<and> elem_addr 8192 0 \<noteq> elem_addr 4096 0
   \<and> score (scored [a2a3] 8192 (init z0) None 0 killer_state ! 0) = 0
   \<and> \<not> move_eq ([b2b3] ! 0) a2a3
   \<and> occupied (init z0) (1 - side (init z0)) AND bit_at (to_sq ([b2b3] ! 0)) = 0
   \<and> score (scored [b2b3] 4096 (init z0) None 0 killer_state ! 0) = 90000"
proof -
  have t: "\<not> tt_match None m" for m by (simp add: tt_match_def)
  have qa: "occupied (init z0) (1 - side (init z0)) AND bit_at (to_sq ([a2a3] ! 0)) = 0"
    using a2a3_quiet by simp
  have qb: "occupied (init z0) (1 - side (init z0)) AND bit_at (to_sq ([b2b3] ! 0)) = 0"
    using b2b3_quiet by simp
  have pa: "promo_bonus ([a2a3] ! 0) = 0" by (simp add: promo_bonus_def a2a3_def mk_Move_def)
  have pb: "promo_bonus ([b2b3] ! 0) = 0" by (simp add: promo_bonus_def b2b3_def mk_Move_def)
  have ad: "elem_addr 8192 0 \<noteq> elem_addr 4096 0" "elem_addr 8192 0 \<noteq> 0"
    by (simp_all add: elem_addr_def)
  have eq: "move_eq ([a2a3] ! 0) a2a3" "\<not> move_eq ([b2b3] ! 0) a2a3"
    by (simp_all add: move_eq_def a2a3_def b2b3_def mk_Move_def)
  from killer_recorded_by_address [of 0 "[a2a3]" None "init z0" 8192 "elem_addr 4096 0" 0 st0,
      OF _ t qa] ad pa
  have 1: "score (scored [a2a3] 8192 (init z0) None 0 killer_state ! 0) = 0"
    by (simp add: killer_state_def st0_def)
  from killer_recorded_by_address [of 0 "[b2b3]" None "init z0" 4096 "elem_addr 4096 0" 0 st0,
      OF _ t qb] pb
  have 2: "score (scored [b2b3] 4096 (init z0) None 0 killer_state ! 0) = 90000"
    by (simp add: killer_state_def)
  from 1 2 qa qb ad eq show ?thesis by (simp add: killer_state_def)
qed

subsection \<open>C6: the score of a capture\<close>

text \<open>
  C6, as the code has it. During move ordering, a move that is not the TT move and
  whose target square holds an opponent piece receives
  100 000 + 10 V(victim) - V(attacker), with V = 100, 300, 300, 500, 900, 10 000 for
  pawn to king, plus 80 000 when it is a queen promotion; the victim is the opponent
  piece on the target square. A move whose target square is empty, which includes
  every en-passant capture, receives the killer or history score instead.
\<close>

theorem capture_score:
  assumes "i < length moves" and "m = moves ! i" and "\<not> tt_match ttMove m"
  shows "scored moves base b ttMove ply st ! i \<in> set (scoreMoves moves base b ttMove ply st)
     \<and> (occupied b (1 - side b) AND bit_at (to_sq m) \<noteq> 0 \<and> victim_kind b m v \<longrightarrow>
          score (scored moves base b ttMove ply st ! i)
            = 100000 + 10 * victimValues ! nat v - victimValues ! nat (piece m) + promo_bonus m)
     \<and> (occupied b (1 - side b) AND bit_at (to_sq m) = 0 \<longrightarrow>
          score (scored moves base b ttMove ply st ! i)
            = (if isKiller (killerMoves st) (elem_addr base i) ply then 90000
               else history_get (historyTable st) (side b) (from_sq m) (to_sq m))
              + promo_bonus m)
     \<and> victimValues = [100, 300, 300, 500, 900, 10000]"
proof -
  have "scored moves base b ttMove ply st ! i \<in> set (scored moves base b ttMove ply st)"
    using assms(1) by (simp add: scored_def)
  then have 1: "scored moves base b ttMove ply st ! i \<in> set (scoreMoves moves base b ttMove ply st)"
    by (simp add: scoreMoves_set)
  have 2: "score (scored moves base b ttMove ply st ! i)
            = 100000 + 10 * victimValues ! nat v - victimValues ! nat (piece m) + promo_bonus m"
    if "occupied b (1 - side b) AND bit_at (to_sq m) \<noteq> 0" "victim_kind b m v"
    using that assms scoreMove_capture [of ttMove m b v ply st "elem_addr base i"]
    by (simp add: scored_nth victim_kind_def)
  have 3: "score (scored moves base b ttMove ply st ! i)
            = (if isKiller (killerMoves st) (elem_addr base i) ply then 90000
               else history_get (historyTable st) (side b) (from_sq m) (to_sq m))
              + promo_bonus m"
    if "occupied b (1 - side b) AND bit_at (to_sq m) = 0"
    using that assms scoreMove_quiet [of ttMove m b ply st "elem_addr base i"]
    by (simp add: scored_nth)
  from 1 2 3 show ?thesis by (simp add: victimValues_def)
qed

text \<open>The capture Bf1xa6 of a pawn: 100 000 + 10 * 100 - 300.\<close>

theorem capture_score_witness:
  "0 < length [bxa6] \<and> bxa6 = [bxa6] ! 0 \<and> \<not> tt_match None bxa6
   \<and> occupied ep_board (1 - side ep_board) AND bit_at (to_sq bxa6) \<noteq> 0
   \<and> victim_kind ep_board bxa6 PAWN
   \<and> score (scored [bxa6] 4096 ep_board None 0 st0 ! 0) = 100700"
proof -
  have t: "\<not> tt_match None bxa6" by (simp add: tt_match_def)
  have o: "occupied ep_board (1 - side ep_board) AND bit_at (to_sq bxa6) \<noteq> 0"
    by (simp add: ep_board_def bxa6_def mk_Move_def bit_at_def)
  have p: "promo_bonus bxa6 = 0" "piece bxa6 = BISHOP"
    by (simp_all add: promo_bonus_def bxa6_def mk_Move_def)
  from capture_score [of 0 "[bxa6]" bxa6 None 4096 ep_board 0 st0 PAWN, OF _ _ t]
    t o p ep_board_bishop_victim
  show ?thesis by (simp add: victimValues_def)
qed

text \<open>
  The claim as stated fails on en passant: in the position after 1. e4 a6 2. e5 d5
  the generated move e5xd6 goes to the en-passant square and captures the pawn on d5,
  and receives 0 (its history score), not 100 900.
\<close>

theorem capture_score_counterexample:
  "exd6 \<in> set (generateMoves z0 ep_board False) \<and> to_sq exd6 = ep ep_board
   \<and> pieces ep_board (1 - side ep_board) PAWN AND bit_at (to_sq exd6 - 8) \<noteq> 0
   \<and> score (scored [exd6] 4096 ep_board None 0 st0 ! 0) = 0
   \<and> 100000 + 10 * victimValues ! nat PAWN - victimValues ! nat (piece exd6) = 100900"
proof -
  have "score (scoreMove ep_board None 0 st0 (elem_addr 4096 0) exd6) = 0"
    by (simp add: scoreMove_def exd6_def mk_Move_def ep_board_def bit_at_def isKiller_def
        st0_def history_get_def elem_addr_def sizeof_Move_def)
  then show ?thesis
    using exd6_generated
    by (simp add: scored_nth exd6_def mk_Move_def ep_board_facts victimValues_def)
qed

subsection \<open>C7: the history table\<close>

text \<open>
  C7, as the code has it. In one turn of the move loop of \<^verbatim>\<open>search\<close>, the entry
  \<open>history[side][from][to]\<close> is incremented by \<open>depth * depth\<close> exactly when the score of
  the move exceeds the current alpha and the target square holds no opponent piece,
  whether or not the new alpha reaches beta. The increment adds \<open>d * d\<close> to the one
  entry; if that entry then exceeds 100 000, every entry of the table is halved.
\<close>

theorem history_rule:
  "historyTable (l_state (fst (after_move b m a sc depth beta inCheck ply moveCount L))) =
     (if sc > l_alpha L \<and> occupied b (1 - side b) AND bit_at (to_sq m) = 0
      then history_update (historyTable (l_state L)) (side b) (from_sq m) (to_sq m) depth
      else historyTable (l_state L))
   \<and> (h sd fr t + d * d \<le> 100000 \<longrightarrow>
        history_update h sd fr t d = h(sd := (h sd)(fr := (h sd fr)(t := h sd fr t + d * d))))
   \<and> (h sd fr t + d * d > 100000 \<and> 0 \<le> s \<and> s < 2 \<and> 0 \<le> f \<and> f < 64 \<and> 0 \<le> t' \<and> t' < 64 \<longrightarrow>
        history_update h sd fr t d s f t'
          = cdiv ((h(sd := (h sd)(fr := (h sd fr)(t := h sd fr t + d * d)))) s f t') 2)"
  using after_move_history [of b m a sc depth beta inCheck ply moveCount L]
    history_update_plain [of h sd fr t d] history_update_aging [of h sd fr t d s f t']
  by simp

text \<open>A turn that increments, an increment without aging, and two entries after
  aging.\<close>

theorem history_rule_witness:
  "historyTable (l_state (fst quiet_step)) 0 8 16 = 9
   \<and> history_update (\<lambda>s f t. 0) 0 8 16 3 = (\<lambda>s f t. 0)(0 := (\<lambda>f t. 0)(8 := (\<lambda>t. 0)(16 := 9)))
   \<and> history_update (\<lambda>s f t. 99999) 0 8 16 3 1 5 5 = 49999
   \<and> history_update (\<lambda>s f t. 99999) 0 8 16 3 0 8 16 = 50004"
proof -
  have q: "occupied (init z0) (1 - side (init z0)) AND bit_at (to_sq a2a3) = 0"
    by (rule a2a3_quiet)
  have 1: "historyTable (l_state (fst quiet_step)) =
           history_update (\<lambda>s f t. 0) 0 8 16 3"
    using history_rule [of "init z0" a2a3 "elem_addr 4096 0" 10 3 100 False 1 1 loop0
        "\<lambda>s f t. 0" 0 0 0 0 0 0 0] q init_coherent [of z0]
    by (simp add: quiet_step_def loop0_def st0_def a2a3_def mk_Move_def)
  have 2: "history_update (\<lambda>s f t. 0) 0 8 16 3 = (\<lambda>s f t. 0)(0 := (\<lambda>f t. 0)(8 := (\<lambda>t. 0)(16 := 9)))"
    using history_rule [of "init z0" a2a3 "elem_addr 4096 0" 10 3 100 False 1 1 loop0
        "\<lambda>s f t. 0" 0 8 16 3 0 0 0]
    by simp
  have 3: "history_update (\<lambda>s f t. 99999) 0 8 16 3 1 5 5 = 49999"
    using history_rule [of "init z0" a2a3 "elem_addr 4096 0" 10 3 100 False 1 1 loop0
        "\<lambda>s f t. 99999" 0 8 16 3 1 5 5]
    by (simp add: cdiv_def)
  have 4: "history_update (\<lambda>s f t. 99999) 0 8 16 3 0 8 16 = 50004"
    using history_rule [of "init z0" a2a3 "elem_addr 4096 0" 10 3 100 False 1 1 loop0
        "\<lambda>s f t. 99999" 0 8 16 3 0 8 16]
    by (simp add: cdiv_def)
  from 1 2 3 4 show ?thesis by simp
qed

text \<open>
  The claim as stated fails: the quiet move a2-a3 raises alpha from 0 to 10, below
  \<open>beta = 100\<close>, so there is no cutoff and the loop goes on, yet its history entry grows
  from 0 to 9.
\<close>

theorem history_update_counterexample:
  "occupied (init z0) (1 - side (init z0)) AND bit_at (to_sq a2a3) = 0
   \<and> \<not> snd quiet_step \<and> l_alpha (fst quiet_step) = 10 \<and> \<not> (l_alpha (fst quiet_step) \<ge> 100)
   \<and> historyTable (l_state loop0) 0 8 16 = 0
   \<and> historyTable (l_state (fst quiet_step)) 0 8 16 = 3 * 3"
  using a2a3_quiet init_coherent [of z0]
  by (simp add: quiet_step_def after_move_def loop0_def st0_def Let_def a2a3_def mk_Move_def
      history_update_def INF_score_def)

subsection \<open>C8: the transposition-table probe\<close>

text \<open>
  C8. Let \<open>e\<close> be the entry in the slot of the position and \<open>d\<close> the search depth after
  the check extension. If the stored hash differs from the position's hash the probe
  returns nothing. If it is equal and the stored depth is at least \<open>d\<close>, then
  \<^verbatim>\<open>search\<close> returns at once: the stored score for a flag EXACT, alpha for a flag
  ALPHA with stored score at most alpha, beta for a flag BETA with stored score at
  least beta. Only the node counter has changed.
\<close>

theorem tt_probe_cutoffs:
  assumes "e = transpositionTable st (tt_index b)"
    and "d = (if isInCheck b then depth + 1 else depth)"
  shows "(tt_hash e \<noteq> hash b \<longrightarrow> tt_probe e b d alpha beta bestMove ply = None)
     \<and> (tt_hash e = hash b \<and> tt_depth e \<ge> d \<and> tt_flag e = TT_EXACT \<longrightarrow>
          search z heap (Suc n) b depth alpha beta bestMove ply nullMove st
            = Some (tt_score e,
                    if ply = 0 then unpack_move (tt_bestMove e) bestMove else bestMove,
                    st\<lparr>nodes := nodes st + 1\<rparr>))
     \<and> (tt_hash e = hash b \<and> tt_depth e \<ge> d \<and> tt_flag e = TT_ALPHA \<and> tt_score e \<le> alpha \<longrightarrow>
          search z heap (Suc n) b depth alpha beta bestMove ply nullMove st
            = Some (alpha, bestMove, st\<lparr>nodes := nodes st + 1\<rparr>))
     \<and> (tt_hash e = hash b \<and> tt_depth e \<ge> d \<and> tt_flag e = TT_BETA \<and> tt_score e \<ge> beta \<longrightarrow>
          search z heap (Suc n) b depth alpha beta bestMove ply nullMove st
            = Some (beta, bestMove, st\<lparr>nodes := nodes st + 1\<rparr>))"
proof (intro conjI impI)
  assume "tt_hash e \<noteq> hash b"
  then show "tt_probe e b d alpha beta bestMove ply = None" by (simp add: tt_probe_def)
next
  assume "tt_hash e = hash b \<and> tt_depth e \<ge> d \<and> tt_flag e = TT_EXACT"
  then have "tt_probe e b d alpha beta bestMove ply
      = Some (tt_score e, if ply = 0 then unpack_move (tt_bestMove e) bestMove else bestMove)"
    by (simp add: tt_probe_def)
  then show "search z heap (Suc n) b depth alpha beta bestMove ply nullMove st
            = Some (tt_score e,
                    if ply = 0 then unpack_move (tt_bestMove e) bestMove else bestMove,
                    st\<lparr>nodes := nodes st + 1\<rparr>)"
    unfolding assms by (rule search_probe_hit)
next
  assume "tt_hash e = hash b \<and> tt_depth e \<ge> d \<and> tt_flag e = TT_ALPHA \<and> tt_score e \<le> alpha"
  then have "tt_probe e b d alpha beta bestMove ply = Some (alpha, bestMove)"
    by (simp add: tt_probe_def)
  then show "search z heap (Suc n) b depth alpha beta bestMove ply nullMove st
            = Some (alpha, bestMove, st\<lparr>nodes := nodes st + 1\<rparr>)"
    unfolding assms by (rule search_probe_hit)
next
  assume "tt_hash e = hash b \<and> tt_depth e \<ge> d \<and> tt_flag e = TT_BETA \<and> tt_score e \<ge> beta"
  then have "tt_probe e b d alpha beta bestMove ply = Some (beta, bestMove)"
    by (simp add: tt_probe_def)
  then show "search z heap (Suc n) b depth alpha beta bestMove ply nullMove st
            = Some (beta, bestMove, st\<lparr>nodes := nodes st + 1\<rparr>)"
    unfolding assms by (rule search_probe_hit)
qed

text \<open>The three cutoffs on the start position, and a miss on a different hash.\<close>

theorem tt_probe_cutoffs_witness:
  "search z0 (\<lambda>n. 4096) (Suc 0) (init z0) 3 (- 50) 50 a2a3 1 True (tt_state TT_EXACT 42)
     = Some (42, a2a3, (tt_state TT_EXACT 42)\<lparr>nodes := 1\<rparr>)
   \<and> search z0 (\<lambda>n. 4096) (Suc 0) (init z0) 3 (- 50) 50 a2a3 1 True (tt_state TT_ALPHA (- 80))
     = Some (- 50, a2a3, (tt_state TT_ALPHA (- 80))\<lparr>nodes := 1\<rparr>)
   \<and> search z0 (\<lambda>n. 4096) (Suc 0) (init z0) 3 (- 50) 50 a2a3 1 True (tt_state TT_BETA 70)
     = Some (50, a2a3, (tt_state TT_BETA 70)\<lparr>nodes := 1\<rparr>)
   \<and> tt_probe ((transpositionTable (tt_state TT_EXACT 42) (tt_index (init z0)))
                  \<lparr>tt_hash := hash (init z0) + 1\<rparr>) (init z0) 3 (- 50) 50 a2a3 1 = None"
proof -
  have 1: "search z0 (\<lambda>n. 4096) (Suc 0) (init z0) 3 (- 50) 50 a2a3 1 True (tt_state TT_EXACT 42)
     = Some (42, a2a3, (tt_state TT_EXACT 42)\<lparr>nodes := 1\<rparr>)"
    using tt_probe_cutoffs [OF refl refl, of "tt_state TT_EXACT 42" "init z0" 3 "- 50" 50 a2a3 1
        z0 "\<lambda>n. 4096" 0 True]
    by (simp add: tt_state_def st0_def)
  have 2: "search z0 (\<lambda>n. 4096) (Suc 0) (init z0) 3 (- 50) 50 a2a3 1 True (tt_state TT_ALPHA (- 80))
     = Some (- 50, a2a3, (tt_state TT_ALPHA (- 80))\<lparr>nodes := 1\<rparr>)"
    using tt_probe_cutoffs [OF refl refl, of "tt_state TT_ALPHA (- 80)" "init z0" 3 "- 50" 50 a2a3 1
        z0 "\<lambda>n. 4096" 0 True]
    by (simp add: tt_state_def st0_def)
  have 3: "search z0 (\<lambda>n. 4096) (Suc 0) (init z0) 3 (- 50) 50 a2a3 1 True (tt_state TT_BETA 70)
     = Some (50, a2a3, (tt_state TT_BETA 70)\<lparr>nodes := 1\<rparr>)"
    using tt_probe_cutoffs [OF refl refl, of "tt_state TT_BETA 70" "init z0" 3 "- 50" 50 a2a3 1
        z0 "\<lambda>n. 4096" 0 True]
    by (simp add: tt_state_def st0_def)
  have 4: "tt_probe ((transpositionTable (tt_state TT_EXACT 42) (tt_index (init z0)))
                  \<lparr>tt_hash := hash (init z0) + 1\<rparr>) (init z0) 3 (- 50) 50 a2a3 1 = None"
    by (simp add: tt_probe_def tt_state_def)
  from 1 2 3 4 show ?thesis by simp
qed

subsection \<open>C9: the evaluation and the side to move\<close>

text \<open>
  C9. The static evaluation reads the side to move only in its last line: on the same
  bitboards, castling rights and en-passant square, the value with \<open>side = BLACK\<close> is the
  negation of the value with \<open>side = WHITE\<close>.
\<close>

theorem evaluate_side_negation:
  "evaluate (b\<lparr>side := BLACK\<rparr>) = - evaluate (b\<lparr>side := WHITE\<rparr>)"
proof -
  have "eval_material (b\<lparr>side := s\<rparr>) e = eval_material b e" for s e
    by (simp add: eval_material_def)
  moreover have "eval_king (b\<lparr>side := s\<rparr>) e = eval_king b e" for s e
    by (simp add: eval_king_def Let_def cong: if_cong)
  moreover have "eval_center (b\<lparr>side := s\<rparr>) e = eval_center b e" for s e
    by (simp add: eval_center_def)
  moreover have "eval_wpawns (b\<lparr>side := s\<rparr>) e = eval_wpawns b e" for s e
    by (simp add: eval_wpawns_def)
  moreover have "eval_bpawns (b\<lparr>side := s\<rparr>) e = eval_bpawns b e" for s e
    by (simp add: eval_bpawns_def)
  ultimately show ?thesis
    by (simp add: evaluate_def)
qed

subsection \<open>C10: the evaluation stays below the mate threshold\<close>

text \<open>
  C10. On every board whose twelve piece words are pairwise disjoint, the absolute
  value of the static evaluation is below \<open>MATE - 1000\<close>, so the mate test
  \<^verbatim>\<open>abs(score) >= MATE - 1000\<close> never takes an evaluation for a mate score.
\<close>

theorem evaluate_below_mate_threshold:
  assumes "disjoint_bitboards b"
  shows "\<bar>evaluate b\<bar> < MATE - 1000"
proof -
  define m where "m = eval_material b 0"
  define k where "k = eval_king b m"
  define c where "c = eval_center b k"
  define w where "w = eval_wpawns b c"
  define bl where "bl = eval_bpawns b w"
  note W = side_popcount [OF assms, of 0, simplified]
  note B = side_popcount [OF assms, of 1, simplified]
  note nn = popcountll_nonneg
  have m: "m = (popcountll (pieces b 0 0) * 100 + popcountll (pieces b 0 1) * 320
        + popcountll (pieces b 0 2) * 330 + popcountll (pieces b 0 3) * 500
        + popcountll (pieces b 0 4) * 900)
     - (popcountll (pieces b 1 0) * 100 + popcountll (pieces b 1 1) * 320
        + popcountll (pieces b 1 2) * 330 + popcountll (pieces b 1 3) * 500
        + popcountll (pieces b 1 4) * 900)"
    unfolding m_def by (simp add: eval_material_explicit)
  have kb: "m - 60 \<le> k \<and> k \<le> m + 60" unfolding k_def by (rule eval_king_bounds)
  have cb: "k - 20 * popcountll (pieces b 1 0) \<le> c \<and> c \<le> k + 20 * popcountll (pieces b 0 0)"
    unfolding c_def by (rule eval_center_bounds)
  have wb: "c \<le> w \<and> w \<le> c + 60 * popcountll (pieces b 0 0)"
    unfolding w_def by (rule eval_wpawns_bounds)
  have bb: "w - 60 * popcountll (pieces b 1 0) \<le> bl \<and> bl \<le> w"
    unfolding bl_def by (rule eval_bpawns_bounds)
  have up: "bl \<le> 57660"
    using m kb cb wb bb W nn [of "pieces b 0 0"] nn [of "pieces b 0 1"] nn [of "pieces b 0 2"]
      nn [of "pieces b 0 3"] nn [of "pieces b 0 4"] nn [of "pieces b 0 5"]
      nn [of "pieces b 1 0"] nn [of "pieces b 1 1"] nn [of "pieces b 1 2"]
      nn [of "pieces b 1 3"] nn [of "pieces b 1 4"] nn [of "pieces b 1 5"]
    by linarith
  have lo: "- 57660 \<le> bl"
    using m kb cb wb bb B nn [of "pieces b 0 0"] nn [of "pieces b 0 1"] nn [of "pieces b 0 2"]
      nn [of "pieces b 0 3"] nn [of "pieces b 0 4"] nn [of "pieces b 0 5"]
      nn [of "pieces b 1 0"] nn [of "pieces b 1 1"] nn [of "pieces b 1 2"]
      nn [of "pieces b 1 3"] nn [of "pieces b 1 4"] nn [of "pieces b 1 5"]
    by linarith
  have "evaluate b = bl \<or> evaluate b = - bl"
    by (simp add: evaluate_def bl_def w_def c_def k_def m_def Let_def)
  then show ?thesis using up lo by (auto simp: MATE_def)
qed

text \<open>The start position.\<close>

theorem evaluate_below_mate_threshold_witness:
  "disjoint_bitboards (init z0) \<and> \<bar>evaluate (init z0)\<bar> < MATE - 1000"
  using evaluate_below_mate_threshold [OF init_disjoint, of z0] init_disjoint [of z0] by simp

end
